theory Spec2Isabelle
  imports Complex_Main
begin

section \<open>JavaScript values\<close>

text \<open>
  The reconstruction receives \<^verbatim>\<open>flatNodes: any[]\<close>, the parsed JSON answer of the
  generator: every element is taken to be an object, and a field of it can hold any JSON
  scalar or be missing. The scalars are modelled by \<open>jsval\<close>; a missing field reads as
  \<open>JUndefined\<close>. Numbers are restricted to integers (page numbers and numeric ids):
  \<open>JNum n\<close> is the Number whose value is the integer \<open>n\<close>, so \<open>n\<close> is an integer that a
  double holds exactly, as every integer of magnitude up to \<open>2\<^sup>5\<^sup>3\<close> is. Fractions,
  \<^verbatim>\<open>NaN\<close> and the infinities, and objects and arrays as field values are not modelled.
\<close>

datatype jsval = JUndefined | JNull | JBool bool | JNum int | JStr string

text \<open>JavaScript truthiness, as used by \<^verbatim>\<open>if (pId)\<close> and \<^verbatim>\<open>raw.label || ...\<close>.\<close>

fun truthy :: "jsval \<Rightarrow> bool" where
  "truthy JUndefined = False"
| "truthy JNull = False"
| "truthy (JBool b) = b"
| "truthy (JNum n) = (n \<noteq> 0)"
| "truthy (JStr s) = (s \<noteq> [])"

text \<open>\<^verbatim>\<open>a || b\<close> on values.\<close>

definition js_or :: "jsval \<Rightarrow> jsval \<Rightarrow> jsval" where
  "js_or a b = (if truthy a then a else b)"

text \<open>
  \<^verbatim>\<open>String(v)\<close> gives the fixed words for the scalars that are not Numbers. On a Number it
  is \<^verbatim>\<open>Number::toString\<close> of ECMA-262 with radix 10: the digits are those of the decimal
  with the fewest significant digits whose Number value is the given Number and, of these, the
  one nearest to it; a result of up to 21 digits is written out and a longer one is written
  in exponent notation. So \<^verbatim>\<open>String(7)\<close> is \<^verbatim>\<open>"7"\<close>, \<^verbatim>\<open>String(2**60)\<close> is
  \<^verbatim>\<open>"1152921504606847000"\<close> and \<^verbatim>\<open>String(1e21)\<close> is \<^verbatim>\<open>"1e+21"\<close>.
\<close>

function digits_of :: "int \<Rightarrow> string" where
  "digits_of n =
     (if n < 10 then [''0123456789'' ! nat n]
      else digits_of (n div 10) @ [''0123456789'' ! nat (n mod 10)])"
  by pat_completeness auto

termination digits_of
  by (relation "measure nat") auto

declare digits_of.simps [simp del]

function bit_length :: "int \<Rightarrow> nat" where
  "bit_length n = (if n \<le> 0 then 0 else Suc (bit_length (n div 2)))"
  by pat_completeness auto

termination bit_length
  by (relation "measure nat") auto

declare bit_length.simps [simp del]

text \<open>
  The Number value for a positive integer: the integer rounded to 53 significant bits,
  a tie going to the even significand. (The greatest finite Number is below \<open>2\<^sup>1\<^sup>0\<^sup>2\<^sup>4\<close>; the
  function is used only to ask whether an integer rounds to a given finite Number.)
\<close>

definition number_value :: "int \<Rightarrow> int" where
  "number_value c =
     (if bit_length c \<le> 53 then c
      else (let sh = bit_length c - 53;
                q = c div 2 ^ sh;
                r = c mod 2 ^ sh;
                half = 2 ^ (sh - 1)
            in if half < r \<or> (r = half \<and> odd q) then (q + 1) * 2 ^ sh else q * 2 ^ sh))"

text \<open>
  The decimals with \<open>k\<close> significant digits next to \<open>x\<close> are \<open>x\<close> cut after \<open>k\<close> digits and
  that plus one unit of the last kept digit. \<open>decimal_candidate x k\<close> is the one of them whose
  Number value is \<open>x\<close>, the nearer one if both are and, at equal distance, the one with the
  even last digit.
\<close>

definition decimal_candidate :: "int \<Rightarrow> nat \<Rightarrow> int option" where
  "decimal_candidate x k =
     (let u = 10 ^ (length (digits_of x) - k);
          lo = (x div u) * u;
          hi = lo + u;
          lo_ok = (number_value lo = x);
          hi_ok = (number_value hi = x)
      in if lo_ok \<and> hi_ok
         then (if x - lo < hi - x then Some lo
               else if hi - x < x - lo then Some hi
               else if even (x div u) then Some lo else Some hi)
         else if lo_ok then Some lo
         else if hi_ok then Some hi
         else None)"

text \<open>
  The shortest decimal of a Number: the candidate for the least number of digits that has
  one. With all digits of \<open>x\<close> kept the candidate is \<open>x\<close> itself, so the search ends there at
  the latest.
\<close>

definition shortest_decimal :: "int \<Rightarrow> int" where
  "shortest_decimal x =
     (case List.map_filter (decimal_candidate x) [1..<Suc (length (digits_of x))] of
        [] \<Rightarrow> x
      | c # cs \<Rightarrow> c)"

text \<open>
  Exponent notation: the digits without the trailing zeros, a point after the first digit if
  more follow, and the exponent, which is the number of digits minus one.
\<close>

definition exponent_form :: "int \<Rightarrow> string" where
  "exponent_form c =
     (let ds = digits_of c;
          s = rev (dropWhile (\<lambda>d. d = CHR ''0'') (rev ds))
      in (if length s \<le> 1 then s else hd s # ''.'' @ tl s) @ ''e+'' @ digits_of (int (length ds) - 1))"

definition Number_toString :: "int \<Rightarrow> string" where
  "Number_toString x =
     (let c = shortest_decimal x
      in if length (digits_of c) \<le> 21 then digits_of c else exponent_form c)"

fun String_js :: "jsval \<Rightarrow> string" where
  "String_js JUndefined = ''undefined''"
| "String_js JNull = ''null''"
| "String_js (JBool b) = (if b then ''true'' else ''false'')"
| "String_js (JNum n) = (if n < 0 then ''-'' @ Number_toString (- n) else Number_toString n)"
| "String_js (JStr s) = s"

section \<open>The insertion-ordered Map\<close>

text \<open>
  A JavaScript \<^verbatim>\<open>Map\<close> iterates in insertion order, and \<^verbatim>\<open>set\<close> on a key that is present
  replaces the value in place. Both builders depend on that order
  (\<^verbatim>\<open>nodeMap.values().next()\<close>, \<^verbatim>\<open>nodeMap.forEach\<close>), so the map is an association list.
\<close>

fun map_set :: "('k \<times> 'v) list \<Rightarrow> 'k \<Rightarrow> 'v \<Rightarrow> ('k \<times> 'v) list" where
  "map_set [] k v = [(k, v)]"
| "map_set ((k', v') # m) k v = (if k' = k then (k, v) # m else (k', v') # map_set m k v)"

fun map_get :: "('k \<times> 'v) list \<Rightarrow> 'k \<Rightarrow> 'v option" where
  "map_get [] k = None"
| "map_get ((k', v') # m) k = (if k' = k then Some v' else map_get m k)"

definition map_has :: "('k \<times> 'v) list \<Rightarrow> 'k \<Rightarrow> bool" where
  "map_has m k = (map_get m k \<noteq> None)"

definition map_keys :: "('k \<times> 'v) list \<Rightarrow> 'k list" where
  "map_keys m = map fst m"

section \<open>Records, node objects and the result\<close>

text \<open>A raw record of the generator; every field is untrusted.\<close>

record RawNode =
  raw_id :: jsval
  raw_parentId :: jsval
  raw_label :: jsval
  raw_summary :: jsval
  raw_quote :: jsval
  raw_pageNumber :: jsval

text \<open>
  A \<^verbatim>\<open>MindMapNode\<close> object as the builders create it. The objects live in \<^verbatim>\<open>nodeMap\<close>
  and are mutated through it: \<^verbatim>\<open>parent.children.push(node)\<close> stores a reference to the
  object held under the key of \<open>node\<close>. After the first pass each key holds one object, so a
  reference is the key, and \<open>obj_children\<close> is a list of keys. The key type is \<open>jsval\<close> for
  the builder of \<^verbatim>\<open>geminiService.ts\<close>, which uses \<^verbatim>\<open>raw.id\<close> as it comes, and \<open>string\<close>
  for the builder with the synthetic root, which uses \<^verbatim>\<open>String(raw.id)\<close>.
\<close>

record 'k NodeObj =
  obj_id :: 'k
  obj_label :: jsval
  obj_summary :: jsval
  obj_quote :: jsval
  obj_pageNumber :: int
  obj_children :: "'k list"

datatype error = EmptyMindMap

definition error_message :: "error \<Rightarrow> string" where
  "error_message e = (case e of EmptyMindMap \<Rightarrow> ''The mind map returned by AI was empty.'')"

text \<open>\<^verbatim>\<open>typeof raw.pageNumber === 'number' ? raw.pageNumber : 1\<close>\<close>

definition pageNumber_of :: "jsval \<Rightarrow> int" where
  "pageNumber_of v = (case v of JNum n \<Rightarrow> n | _ \<Rightarrow> 1)"

subsection \<open>The builder of geminiService.ts (the first root candidate becomes the root)\<close>

text \<open>
  The result \<^verbatim>\<open>{ root, markdownSummary: "", researchReport: "" }\<close>: \<open>root\<close> refers to an
  object of the map, so it is a key, and the objects come with it.
\<close>

record MindMapData =
  root :: jsval
  nodeMap :: "(jsval \<times> jsval NodeObj) list"
  markdownSummary :: string
  researchReport :: string

text \<open>Step 1 (lines 104 to 113): one object per record, under the key \<^verbatim>\<open>raw.id\<close>.\<close>

definition create_node :: "RawNode \<Rightarrow> jsval NodeObj" where
  "create_node raw =
     \<lparr>obj_id = raw_id raw,
      obj_label = js_or (raw_label raw) (JStr ''Untitled''),
      obj_summary = js_or (raw_summary raw) (JStr ''''),
      obj_quote = js_or (raw_quote raw) (JStr ''''),
      obj_pageNumber = pageNumber_of (raw_pageNumber raw),
      obj_children = []\<rparr>"

definition create_all :: "RawNode list \<Rightarrow> (jsval \<times> jsval NodeObj) list" where
  "create_all flatNodes = foldl (\<lambda>m raw. map_set m (raw_id raw) (create_node raw)) [] flatNodes"

text \<open>Line 120: \<^verbatim>\<open>(raw.parentId === "null" || raw.parentId === "") ? null : raw.parentId\<close>\<close>

definition pId_of :: "RawNode \<Rightarrow> jsval" where
  "pId_of raw =
     (if raw_parentId raw = JStr ''null'' \<or> raw_parentId raw = JStr '''' then JNull
      else raw_parentId raw)"

text \<open>
  Step 2 (lines 116 to 132), one iteration: the state is the map and the root found so far.
  A truthy \<open>pId\<close> that is no key of the map changes nothing.
\<close>

definition link_step ::
  "(jsval \<times> jsval NodeObj) list \<times> jsval option \<Rightarrow> RawNode \<Rightarrow>
   (jsval \<times> jsval NodeObj) list \<times> jsval option" where
  "link_step st raw =
     (case st of (m, r) \<Rightarrow>
        (case map_get m (raw_id raw) of
           None \<Rightarrow> (m, r)
         | Some node \<Rightarrow>
             (if truthy (pId_of raw) then
                (case map_get m (pId_of raw) of
                   Some parent \<Rightarrow>
                     (map_set m (pId_of raw)
                        (parent\<lparr>obj_children := obj_children parent @ [raw_id raw]\<rparr>), r)
                 | None \<Rightarrow> (m, r))
              else (m, (case r of None \<Rightarrow> Some (raw_id raw) | Some k \<Rightarrow> Some k)))))"

definition link_all ::
  "(jsval \<times> jsval NodeObj) list \<Rightarrow> RawNode list \<Rightarrow>
   (jsval \<times> jsval NodeObj) list \<times> jsval option" where
  "link_all m flatNodes = foldl link_step (m, None) flatNodes"

text \<open>Lines 99 to 145, with the fallback to the first object of the map and the throw.\<close>

definition buildTreeFromFlatList :: "RawNode list \<Rightarrow> error + MindMapData" where
  "buildTreeFromFlatList flatNodes =
     (case link_all (create_all flatNodes) flatNodes of
        (m, Some r) \<Rightarrow>
          Inr \<lparr>root = r, nodeMap = m, markdownSummary = '''', researchReport = ''''\<rparr>
      | (m, None) \<Rightarrow>
          (case m of
             (k, v) # rest \<Rightarrow>
               Inr \<lparr>root = k, nodeMap = m, markdownSummary = '''', researchReport = ''''\<rparr>
           | [] \<Rightarrow> Inl EmptyMindMap))"

subsection \<open>The builder with the synthetic root\<close>

text \<open>
  The second version of the service always returns a synthesized root. That root is an
  object outside the map (no \<^verbatim>\<open>children\<close> list can refer to it), so the result holds it
  by value; its children are keys of the map.
\<close>

record SynthData =
  syn_root :: "string NodeObj"
  syn_nodeMap :: "(string \<times> string NodeObj) list"
  syn_markdownSummary :: string
  syn_researchReport :: string

text \<open>The default label and the two texts of the synthetic root, as UTF-8 bytes.\<close>

definition default_label :: string where
  "default_label = [CHR 0xE6, CHR 0x9C, CHR 0xAA, CHR 0xE5, CHR 0x91, CHR 0xBD,
                    CHR 0xE5, CHR 0x90, CHR 0x8D]"

definition overview_label :: string where
  "overview_label = [CHR 0xE6, CHR 0x96, CHR 0x87, CHR 0xE6, CHR 0xA1, CHR 0xA3,
                     CHR 0xE6, CHR 0xA6, CHR 0x82, CHR 0xE8, CHR 0xA7, CHR 0x88]"

definition overview_summary :: string where
  "overview_summary = [CHR 0xE8, CHR 0xAE, CHR 0xBA, CHR 0xE6, CHR 0x96, CHR 0x87,
                       CHR 0xE4, CHR 0xBA, CHR 0xA4, CHR 0xE4, CHR 0xBA, CHR 0x92,
                       CHR 0xE5, CHR 0xBC, CHR 0x8F, CHR 0xE5, CHR 0xAF, CHR 0xBC,
                       CHR 0xE5, CHR 0x9B, CHR 0xBE]"

text \<open>Step 1 (lines 109 to 121): \<^verbatim>\<open>safeId = String(raw.id)\<close> is the key and the id.\<close>

definition safeId :: "RawNode \<Rightarrow> string" where
  "safeId raw = String_js (raw_id raw)"

definition init_node :: "RawNode \<Rightarrow> string NodeObj" where
  "init_node raw =
     \<lparr>obj_id = safeId raw,
      obj_label = js_or (raw_label raw) (JStr default_label),
      obj_summary = js_or (raw_summary raw) (JStr ''''),
      obj_quote = js_or (raw_quote raw) (JStr ''''),
      obj_pageNumber = pageNumber_of (raw_pageNumber raw),
      obj_children = []\<rparr>"

definition init_all :: "RawNode list \<Rightarrow> (string \<times> string NodeObj) list" where
  "init_all flatNodes = foldl (\<lambda>m raw. map_set m (safeId raw) (init_node raw)) [] flatNodes"

text \<open>Step 2 (lines 124 to 130).\<close>

definition syntheticRoot :: "string NodeObj" where
  "syntheticRoot =
     \<lparr>obj_id = ''root-synthetic'',
      obj_label = JStr overview_label,
      obj_summary = JStr overview_summary,
      obj_quote = JUndefined,
      obj_pageNumber = 1,
      obj_children = []\<rparr>"

text \<open>
  Lines 139 to 141: \<^verbatim>\<open>"null"\<close>, \<^verbatim>\<open>null\<close> and \<^verbatim>\<open>undefined\<close> become \<^verbatim>\<open>null\<close> (\<open>None\<close>),
  anything else is turned into a string.
\<close>

definition clean_parentId :: "RawNode \<Rightarrow> string option" where
  "clean_parentId raw =
     (if raw_parentId raw = JStr ''null'' \<or> raw_parentId raw = JNull
         \<or> raw_parentId raw = JUndefined
      then None else Some (String_js (raw_parentId raw)))"

text \<open>
  Step 3 (lines 133 to 151), one iteration: the state is the map and the synthetic root.
  \<^verbatim>\<open>pId && nodeMap.has(pId)\<close> needs a non-empty string that is a key; the lookup
  after a successful \<^verbatim>\<open>has\<close> cannot miss, so its \<open>None\<close> branch is never taken.
\<close>

definition attach_step ::
  "(string \<times> string NodeObj) list \<times> string NodeObj \<Rightarrow> RawNode \<Rightarrow>
   (string \<times> string NodeObj) list \<times> string NodeObj" where
  "attach_step st raw =
     (case st of (m, sr) \<Rightarrow>
        (case map_get m (safeId raw) of
           None \<Rightarrow> (m, sr)
         | Some node \<Rightarrow>
             (case clean_parentId raw of
                Some pId \<Rightarrow>
                  (if pId \<noteq> [] \<and> map_has m pId then
                     (case map_get m pId of
                        Some parent \<Rightarrow>
                          (map_set m pId
                             (parent\<lparr>obj_children := obj_children parent @ [safeId raw]\<rparr>), sr)
                      | None \<Rightarrow> (m, sr))
                   else (m, sr\<lparr>obj_children := obj_children sr @ [safeId raw]\<rparr>))
              | None \<Rightarrow> (m, sr\<lparr>obj_children := obj_children sr @ [safeId raw]\<rparr>))))"

definition attach_all ::
  "(string \<times> string NodeObj) list \<Rightarrow> RawNode list \<Rightarrow>
   (string \<times> string NodeObj) list \<times> string NodeObj" where
  "attach_all m flatNodes = foldl attach_step (m, syntheticRoot) flatNodes"

text \<open>Lines 105 to 159, with the fallback that hangs every object under the root.\<close>

definition buildTreeFromFlatList_synthetic :: "RawNode list \<Rightarrow> error + SynthData" where
  "buildTreeFromFlatList_synthetic flatNodes =
     (case attach_all (init_all flatNodes) flatNodes of
        (m, sr) \<Rightarrow>
          Inr \<lparr>syn_root =
                 (if obj_children sr = [] \<and> m \<noteq> []
                  then sr\<lparr>obj_children := map_keys m\<rparr> else sr),
               syn_nodeMap = m, syn_markdownSummary = '''', syn_researchReport = ''''\<rparr>)"

section \<open>The layout engine\<close>

text \<open>
  The layout passes recurse over \<^verbatim>\<open>node.children\<close>, so they are defined on finite trees:
  on an object graph with a cycle the recursion of the source does not return, and an object
  listed under two parents is visited once per listing, as its copies in a tree are.
  A \<^verbatim>\<open>MindMapNode\<close> of \<^verbatim>\<open>types.ts\<close> is the constructor below; an absent \<^verbatim>\<open>children\<close>
  field and an empty one are treated alike by every test of the source
  (\<^verbatim>\<open>!node.children || node.children.length === 0\<close>), so both are \<open>[]\<close>. The fields
  \<^verbatim>\<open>x\<close> and \<^verbatim>\<open>y\<close> of the interface are never read or written and are left out.

  A JavaScript number is a rational or \<^verbatim>\<open>NaN\<close>: every number of the layout is built from
  integer constants by sums, differences, maxima and halving, which doubles compute exactly
  far beyond any drawable tree. \<open>None\<close> is \<^verbatim>\<open>NaN\<close>; in the optional fields \<^verbatim>\<open>width\<close> and
  \<^verbatim>\<open>height\<close> it is also \<^verbatim>\<open>undefined\<close>, which every arithmetic use turns into \<^verbatim>\<open>NaN\<close>.
\<close>

type_synonym number = "rat option"

definition js_add :: "number \<Rightarrow> number \<Rightarrow> number" where
  "js_add a b = (case a of None \<Rightarrow> None | Some u \<Rightarrow> (case b of None \<Rightarrow> None | Some v \<Rightarrow> Some (u + v)))"

definition js_sub :: "number \<Rightarrow> number \<Rightarrow> number" where
  "js_sub a b = (case a of None \<Rightarrow> None | Some u \<Rightarrow> (case b of None \<Rightarrow> None | Some v \<Rightarrow> Some (u - v)))"

definition js_half :: "number \<Rightarrow> number" where
  "js_half a = (case a of None \<Rightarrow> None | Some u \<Rightarrow> Some (u / 2))"

definition js_max :: "number \<Rightarrow> number \<Rightarrow> number" where
  "js_max a b = (case a of None \<Rightarrow> None | Some u \<Rightarrow> (case b of None \<Rightarrow> None | Some v \<Rightarrow> Some (max u v)))"

text \<open>\<^verbatim>\<open>c.height || 0\<close>: \<^verbatim>\<open>undefined\<close>, \<^verbatim>\<open>NaN\<close> and \<open>0\<close> all give \<open>0\<close>.\<close>

definition or_zero :: "number \<Rightarrow> rat" where
  "or_zero a = (case a of None \<Rightarrow> 0 | Some u \<Rightarrow> u)"

datatype MindMapNode =
  MindMapNode (node_id: string) (label: string) (summary: string) (quote: "string option")
    (pageNumber: int) (children: "MindMapNode list") (width: number) (height: number)

datatype EdgeType = ET_default | ET_straight | ET_step | ET_smoothstep | ET_simplebezier

datatype FontSize = FS_small | FS_medium | FS_large

record MindMapOptions =
  edgeType :: EdgeType
  fontSize :: FontSize

text \<open>
  The records pushed to \<^verbatim>\<open>nodes\<close> and \<^verbatim>\<open>edges\<close>. The fields that hold the same constant
  in every record (\<^verbatim>\<open>type: 'custom'\<close>, the handle sides, \<^verbatim>\<open>animated\<close>, \<^verbatim>\<open>style\<close>,
  \<^verbatim>\<open>markerEnd\<close>) are left out.
\<close>

record FlowNode =
  fn_id :: string
  fn_x :: number
  fn_y :: number
  fn_label :: string
  fn_summary :: string
  fn_pageNumber :: int
  fn_quote :: "string option"
  fn_fontSizeClass :: string

record FlowEdge =
  fe_id :: string
  fe_source :: string
  fe_target :: string
  fe_type :: EdgeType

definition fontSizeClass :: "FontSize \<Rightarrow> string" where
  "fontSizeClass f = (case f of FS_small \<Rightarrow> ''text-xs'' | FS_medium \<Rightarrow> ''text-sm''
                      | FS_large \<Rightarrow> ''text-base'')"

text \<open>The node record of lines 72 to 83 and the edge record of lines 86 to 97.\<close>

definition flow_node :: "MindMapNode \<Rightarrow> number \<Rightarrow> number \<Rightarrow> MindMapOptions \<Rightarrow> FlowNode" where
  "flow_node node px py options =
     \<lparr>fn_id = node_id node, fn_x = px, fn_y = py, fn_label = label node,
      fn_summary = summary node, fn_pageNumber = pageNumber node, fn_quote = quote node,
      fn_fontSizeClass = fontSizeClass (fontSize options)\<rparr>"

definition flow_edge :: "string \<Rightarrow> MindMapNode \<Rightarrow> MindMapOptions \<Rightarrow> FlowEdge" where
  "flow_edge parentId node options =
     \<lparr>fe_id = parentId @ ''-'' @ node_id node, fe_source = parentId,
      fe_target = node_id node, fe_type = edgeType options\<rparr>"

text \<open>\<^verbatim>\<open>if (parentId) edges.push(...)\<close>: an absent and an empty parent id push nothing.\<close>

definition push_edge ::
  "FlowEdge list \<Rightarrow> string option \<Rightarrow> MindMapNode \<Rightarrow> MindMapOptions \<Rightarrow> FlowEdge list" where
  "push_edge edges parentId node options =
     (case parentId of
        None \<Rightarrow> edges
      | Some pid \<Rightarrow> (if pid \<noteq> [] then edges @ [flow_edge pid node options] else edges))"

subsection \<open>MindMapGraph.tsx: the top-down layout\<close>

definition NODE_WIDTH :: rat where "NODE_WIDTH = 260"
definition NODE_HEIGHT :: rat where "NODE_HEIGHT = 140"
definition X_SPACING :: rat where "X_SPACING = 30"
definition Y_SPACING :: rat where "Y_SPACING = 80"

text \<open>
  The loop of lines 35 to 42 over the children, already measured, with their indices:
  \<^verbatim>\<open>totalWidth += width; if (index < n - 1) totalWidth += X_SPACING\<close>.
\<close>

definition totalWidth_loop :: "MindMapNode list \<Rightarrow> number" where
  "totalWidth_loop cs =
     foldl (\<lambda>total (child, index).
              (if int index < int (length cs) - 1
               then js_add (js_add total (width child)) (Some X_SPACING)
               else js_add total (width child)))
       (Some 0) (zip cs [0..<length cs])"

text \<open>
  \<^verbatim>\<open>calculateSubtreeSize\<close> writes \<^verbatim>\<open>node.width\<close> in place; the model returns the node with
  the field written in its whole subtree. The number the source returns is that field.
\<close>

fun calculateSubtreeSize :: "MindMapNode \<Rightarrow> MindMapNode" where
  "calculateSubtreeSize (MindMapNode i l s q p cs w h) =
     (if cs = [] then MindMapNode i l s q p cs (Some NODE_WIDTH) h
      else (let cs' = map calculateSubtreeSize cs
            in MindMapNode i l s q p cs' (js_max (Some NODE_WIDTH) (totalWidth_loop cs')) h))"

text \<open>
  \<^verbatim>\<open>assignPositions\<close> pushes to the arrays \<^verbatim>\<open>nodes\<close> and \<^verbatim>\<open>edges\<close>; the model takes them
  and returns them extended. \<open>assignChildren\<close> is the \<^verbatim>\<open>forEach\<close> of lines 106 to 109 with
  its cursor \<^verbatim>\<open>currentX\<close>.
\<close>

fun assignPositions ::
  "MindMapNode \<Rightarrow> number \<Rightarrow> number \<Rightarrow> FlowNode list \<Rightarrow> FlowEdge list \<Rightarrow> MindMapOptions \<Rightarrow>
   string option \<Rightarrow> FlowNode list \<times> FlowEdge list"
and assignChildren ::
  "MindMapNode list \<Rightarrow> number \<Rightarrow> number \<Rightarrow> FlowNode list \<Rightarrow> FlowEdge list \<Rightarrow> MindMapOptions \<Rightarrow>
   string \<Rightarrow> FlowNode list \<times> FlowEdge list" where
  "assignPositions (MindMapNode i l s q p cs w h) x y nodes edges options parentId =
     (let node = MindMapNode i l s q p cs w h;
          myX = js_sub (js_add x (js_half w)) (js_half (Some NODE_WIDTH));
          nodes1 = nodes @ [flow_node node myX y options];
          edges1 = push_edge edges parentId node options
      in if cs \<noteq> []
         then assignChildren cs x (js_add (js_add y (Some NODE_HEIGHT)) (Some Y_SPACING))
                nodes1 edges1 options i
         else (nodes1, edges1))"
| "assignChildren [] currentX y nodes edges options parentId = (nodes, edges)"
| "assignChildren (child # rest) currentX y nodes edges options parentId =
     (case assignPositions child currentX y nodes edges options (Some parentId) of
        (nodes1, edges1) \<Rightarrow>
          assignChildren rest (js_add currentX (js_add (width child) (Some X_SPACING))) y
            nodes1 edges1 options parentId)"

text \<open>The \<^verbatim>\<open>useMemo\<close> of lines 153 to 167: no data gives two empty lists.\<close>

definition initialLayout :: "MindMapNode option \<Rightarrow> MindMapOptions \<Rightarrow> FlowNode list \<times> FlowEdge list" where
  "initialLayout data options =
     (case data of
        None \<Rightarrow> ([], [])
      | Some r \<Rightarrow> assignPositions (calculateSubtreeSize r) (Some 0) (Some 0) [] [] options None)"

subsection \<open>OutlineView.tsx: the left-to-right layout\<close>

definition LR_NODE_WIDTH :: rat where "LR_NODE_WIDTH = 280"
definition LR_NODE_HEIGHT :: rat where "LR_NODE_HEIGHT = 140"
definition RANK_SPACING :: rat where "RANK_SPACING = 140"
definition NODE_SPACING :: rat where "NODE_SPACING = 24"

definition totalHeight_loop :: "MindMapNode list \<Rightarrow> number" where
  "totalHeight_loop cs =
     foldl (\<lambda>total (child, index).
              (if int index < int (length cs) - 1
               then js_add (js_add total (height child)) (Some NODE_SPACING)
               else js_add total (height child)))
       (Some 0) (zip cs [0..<length cs])"

fun calculateSubtreeHeight :: "MindMapNode \<Rightarrow> MindMapNode" where
  "calculateSubtreeHeight (MindMapNode i l s q p cs w h) =
     (if cs = [] then MindMapNode i l s q p cs w (Some LR_NODE_HEIGHT)
      else (let cs' = map calculateSubtreeHeight cs
            in MindMapNode i l s q p cs' w (js_max (Some LR_NODE_HEIGHT) (totalHeight_loop cs'))))"

text \<open>
  Lines 253 and 254: \<^verbatim>\<open>reduce((acc, c) => acc + (c.height || 0), 0) + (n - 1) * NODE_SPACING\<close>.
\<close>

definition childrenStackHeight :: "MindMapNode list \<Rightarrow> rat" where
  "childrenStackHeight cs =
     foldl (\<lambda>acc c. acc + or_zero (height c)) 0 cs + (of_nat (length cs) - 1) * NODE_SPACING"

fun assignPositions_lr ::
  "MindMapNode \<Rightarrow> number \<Rightarrow> number \<Rightarrow> FlowNode list \<Rightarrow> FlowEdge list \<Rightarrow> MindMapOptions \<Rightarrow>
   string option \<Rightarrow> FlowNode list \<times> FlowEdge list"
and assignChildren_lr ::
  "MindMapNode list \<Rightarrow> number \<Rightarrow> number \<Rightarrow> FlowNode list \<Rightarrow> FlowEdge list \<Rightarrow> MindMapOptions \<Rightarrow>
   string \<Rightarrow> FlowNode list \<times> FlowEdge list" where
  "assignPositions_lr (MindMapNode i l s q p cs w h) x y nodes edges options parentId =
     (let node = MindMapNode i l s q p cs w h;
          myY = js_sub (js_add y (js_half h)) (js_half (Some LR_NODE_HEIGHT));
          myX = x;
          nodes1 = nodes @ [flow_node node myX myY options];
          edges1 = push_edge edges parentId node options
      in if cs \<noteq> []
         then (let childX = js_add (js_add x (Some LR_NODE_WIDTH)) (Some RANK_SPACING);
                   offset = js_half (js_sub h (Some (childrenStackHeight cs)));
                   currentY = js_add y offset
               in assignChildren_lr cs childX currentY nodes1 edges1 options i)
         else (nodes1, edges1))"
| "assignChildren_lr [] childX currentY nodes edges options parentId = (nodes, edges)"
| "assignChildren_lr (child # rest) childX currentY nodes edges options parentId =
     (case assignPositions_lr child childX currentY nodes edges options (Some parentId) of
        (nodes1, edges1) \<Rightarrow>
          assignChildren_lr rest childX (js_add currentY (js_add (height child) (Some NODE_SPACING)))
            nodes1 edges1 options parentId)"

definition initialLayout_lr :: "MindMapNode option \<Rightarrow> MindMapOptions \<Rightarrow> FlowNode list \<times> FlowEdge list" where
  "initialLayout_lr data options =
     (case data of
        None \<Rightarrow> ([], [])
      | Some r \<Rightarrow> assignPositions_lr (calculateSubtreeHeight r) (Some 0) (Some 0) [] [] options None)"

section \<open>Vocabulary of the properties\<close>

subsection \<open>The object graph of a reconstruction\<close>

text \<open>
  \<open>child_links m\<close> lists the parent-child links of the objects of a map, as pairs of keys,
  in the order of the map and of each \<^verbatim>\<open>children\<close> array; \<open>all_children m\<close> is the
  concatenation of all \<^verbatim>\<open>children\<close> arrays, so a key occurs in it once per place where
  its object is listed as a child.
\<close>

definition child_links :: "('k \<times> 'k NodeObj) list \<Rightarrow> ('k \<times> 'k) list" where
  "child_links m = concat (map (\<lambda>(k, n). map (Pair k) (obj_children n)) m)"

definition all_children :: "('k \<times> 'k NodeObj) list \<Rightarrow> 'k list" where
  "all_children m = concat (map (\<lambda>(k, n). obj_children n) m)"

text \<open>
  The tree with the synthetic root has one node outside the map; its nodes are addressed by
  \<open>string option\<close>, \<open>None\<close> being the synthetic root.
\<close>

definition syn_links :: "SynthData \<Rightarrow> (string option \<times> string option) list" where
  "syn_links d =
     map (\<lambda>c. (None, Some c)) (obj_children (syn_root d)) @
     map (\<lambda>(p, c). (Some p, Some c)) (child_links (syn_nodeMap d))"

text \<open>Reachability and ancestry over a list of links.\<close>

definition reachable :: "('k \<times> 'k) list \<Rightarrow> 'k \<Rightarrow> 'k \<Rightarrow> bool" where
  "reachable links a b = ((a, b) \<in> (set links)\<^sup>*)"

definition own_ancestor :: "('k \<times> 'k) list \<Rightarrow> 'k \<Rightarrow> bool" where
  "own_ancestor links k = ((k, k) \<in> (set links)\<^sup>+)"

text \<open>Every object of the map sits under its own id.\<close>

definition keyed :: "('k \<times> 'k NodeObj) list \<Rightarrow> bool" where
  "keyed m = list_all (\<lambda>(k, n). obj_id n = k) m"

subsection \<open>What the input declares\<close>

text \<open>
  The parent references the records declare, as each builder reads them: the pair of the
  cleaned \<^verbatim>\<open>parentId\<close> and the key of the record, for every record whose cleaned
  \<^verbatim>\<open>parentId\<close> is truthy.
\<close>

definition declared_links :: "RawNode list \<Rightarrow> (jsval \<times> jsval) list" where
  "declared_links flatNodes =
     map (\<lambda>raw. (pId_of raw, raw_id raw)) (filter (\<lambda>raw. truthy (pId_of raw)) flatNodes)"

definition declared_links_syn :: "RawNode list \<Rightarrow> (string \<times> string) list" where
  "declared_links_syn flatNodes =
     concat (map (\<lambda>raw. case clean_parentId raw of
                           Some pId \<Rightarrow> (if pId \<noteq> [] then [(pId, safeId raw)] else [])
                         | None \<Rightarrow> []) flatNodes)"

text \<open>
  The root the first builder designates: the first record whose cleaned \<^verbatim>\<open>parentId\<close> is
  falsy, and the first record of the input when there is none.
\<close>

definition first_root :: "RawNode list \<Rightarrow> jsval" where
  "first_root flatNodes =
     (case find (\<lambda>raw. \<not> truthy (pId_of raw)) flatNodes of
        Some raw \<Rightarrow> raw_id raw
      | None \<Rightarrow> raw_id (hd flatNodes))"

text \<open>
  A record is top-level for the builder with the synthetic root when its cleaned
  \<^verbatim>\<open>parentId\<close> is \<^verbatim>\<open>null\<close>, empty, or no key among \<open>keys\<close> (a dangling reference).
\<close>

definition top_level :: "string list \<Rightarrow> RawNode \<Rightarrow> bool" where
  "top_level keys raw =
     (case clean_parentId raw of
        None \<Rightarrow> True
      | Some pId \<Rightarrow> \<not> (pId \<noteq> [] \<and> pId \<in> set keys))"

subsection \<open>Concrete inputs\<close>

text \<open>A record that carries only \<^verbatim>\<open>id\<close> and \<^verbatim>\<open>parentId\<close>.\<close>

definition raw_node :: "jsval \<Rightarrow> jsval \<Rightarrow> RawNode" where
  "raw_node i p =
     \<lparr>raw_id = i, raw_parentId = p, raw_label = JUndefined, raw_summary = JUndefined,
      raw_quote = JUndefined, raw_pageNumber = JUndefined\<rparr>"

text \<open>\<^verbatim>\<open>{id: "1", parentId: null, label: "Intro"}\<close>\<close>

definition intro_record :: RawNode where
  "intro_record =
     \<lparr>raw_id = JStr ''1'', raw_parentId = JNull, raw_label = JStr ''Intro'',
      raw_summary = JUndefined, raw_quote = JUndefined, raw_pageNumber = JUndefined\<rparr>"

text \<open>\<^verbatim>\<open>[{id: "a", parentId: "x"}, {id: "b", parentId: null}]\<close>, no record has the id \<^verbatim>\<open>"x"\<close>.\<close>

definition orphan_input :: "RawNode list" where
  "orphan_input = [raw_node (JStr ''a'') (JStr ''x''), raw_node (JStr ''b'') JNull]"

text \<open>\<^verbatim>\<open>[{id: 1, parentId: null}, {id: 2, parentId: "1"}]\<close>, the ids are numbers.\<close>

definition numeric_input :: "RawNode list" where
  "numeric_input = [raw_node (JNum 1) JNull, raw_node (JNum 2) (JStr ''1'')]"

text \<open>\<^verbatim>\<open>[{id: "a", parentId: "a"}]\<close>\<close>

definition self_parent_input :: "RawNode list" where
  "self_parent_input = [raw_node (JStr ''a'') (JStr ''a'')]"

text \<open>\<^verbatim>\<open>[{id: "r", parentId: null}, {id: "a", parentId: "r"}, {id: "a", parentId: "r"}]\<close>\<close>

definition duplicate_input :: "RawNode list" where
  "duplicate_input =
     [raw_node (JStr ''r'') JNull, raw_node (JStr ''a'') (JStr ''r''),
      raw_node (JStr ''a'') (JStr ''r'')]"

text \<open>\<^verbatim>\<open>[{id: "a", parentId: "b"}, {id: "b", parentId: "a"}]\<close>\<close>

definition loop_input :: "RawNode list" where
  "loop_input = [raw_node (JStr ''a'') (JStr ''b''), raw_node (JStr ''b'') (JStr ''a'')]"

text \<open>\<^verbatim>\<open>[{id: "root-synthetic", parentId: null}]\<close>\<close>

definition clash_input :: "RawNode list" where
  "clash_input = [raw_node (JStr ''root-synthetic'') JNull]"

text \<open>\<^verbatim>\<open>[{id: "r", parentId: null}, {id: "c", parentId: "r"}]\<close>\<close>

definition chain_input :: "RawNode list" where
  "chain_input = [raw_node (JStr ''r'') JNull, raw_node (JStr ''c'') (JStr ''r'')]"

subsection \<open>Trees, paths and the emitted list\<close>

text \<open>
  \<open>preorder t\<close> lists the nodes of a tree, each before its children and the children in
  their order: the order in which both assigners push node records. A node is addressed by
  the path of child indices that leads to it from the root; \<open>emit_index t path\<close> is the
  place of that node in the pre-order, so in the emitted list (lemmas
  \<open>emit_index_preorder\<close>, \<open>layout_ids\<close>).
\<close>

fun nodeCount :: "MindMapNode \<Rightarrow> nat" where
  "nodeCount (MindMapNode i l s q p cs w h) = Suc (sum_list (map nodeCount cs))"

fun preorder :: "MindMapNode \<Rightarrow> MindMapNode list" where
  "preorder (MindMapNode i l s q p cs w h) =
     MindMapNode i l s q p cs w h # concat (map preorder cs)"

fun subtree_at :: "MindMapNode \<Rightarrow> nat list \<Rightarrow> MindMapNode option" where
  "subtree_at t [] = Some t"
| "subtree_at t (i # path) =
     (if i < length (children t) then subtree_at (children t ! i) path else None)"

fun emit_index :: "MindMapNode \<Rightarrow> nat list \<Rightarrow> nat" where
  "emit_index t [] = 0"
| "emit_index t (i # path) =
     Suc (sum_list (map nodeCount (take i (children t))) + emit_index (children t ! i) path)"

subsection \<open>Footprints\<close>

text \<open>
  The footprint rule at one node, for a base size, a spacing and the field that holds the
  footprint: a childless node has the base size; a node with children has the greater of the
  base size and the sum of its children's footprints plus one spacing between neighbours.
\<close>

definition footprint_ok :: "rat \<Rightarrow> rat \<Rightarrow> (MindMapNode \<Rightarrow> number) \<Rightarrow> MindMapNode \<Rightarrow> bool" where
  "footprint_ok BASE SPACING fp n =
     (if children n = [] then fp n = Some BASE
      else list_all (\<lambda>c. fp c \<noteq> None) (children n) \<and>
           fp n = Some (max BASE (sum_list (map (\<lambda>c. or_zero (fp c)) (children n))
                                  + (of_nat (length (children n)) - 1) * SPACING)))"

text \<open>
  The footprint as the specification words it, computed on the tree as it is given: \<open>BASE\<close>
  for a childless node, and for a node with children the greater of \<open>BASE\<close> and the sum of
  the footprints of its children plus \<open>(childCount - 1) * SPACING\<close>.
\<close>

fun spec_footprint :: "rat \<Rightarrow> rat \<Rightarrow> MindMapNode \<Rightarrow> rat" where
  "spec_footprint BASE SPACING (MindMapNode i l s q p cs w h) =
     (if cs = [] then BASE
      else max BASE (sum_list (map (spec_footprint BASE SPACING) cs)
                      + (of_nat (length cs) - 1) * SPACING))"

text \<open>
  The tree with the width (the height) of every node set to what \<open>f\<close> gives for that node
  of the given tree, and nothing else changed.
\<close>

fun with_widths :: "(MindMapNode \<Rightarrow> number) \<Rightarrow> MindMapNode \<Rightarrow> MindMapNode" where
  "with_widths f (MindMapNode i l s q p cs w h) =
     MindMapNode i l s q p (map (with_widths f) cs) (f (MindMapNode i l s q p cs w h)) h"

fun with_heights :: "(MindMapNode \<Rightarrow> number) \<Rightarrow> MindMapNode \<Rightarrow> MindMapNode" where
  "with_heights f (MindMapNode i l s q p cs w h) =
     MindMapNode i l s q p (map (with_heights f) cs) w (f (MindMapNode i l s q p cs w h))"

subsection \<open>Spans\<close>

text \<open>
  The span allocated to a subtree along the packing axis, read from the output: the interval
  of the length of the subtree's footprint around the centre of the node's box, whose corner
  is the emitted coordinate. It is the interval from the cursor the assigner was called with
  to that cursor plus the footprint (lemmas \<open>subtree_span_td\<close>, \<open>subtree_span_lr_eq\<close>).
\<close>

definition allocated_span :: "rat \<Rightarrow> number \<Rightarrow> number \<Rightarrow> (rat \<times> rat) option" where
  "allocated_span box pos fp =
     (case pos of
        None \<Rightarrow> None
      | Some v \<Rightarrow> (case fp of None \<Rightarrow> None
                   | Some w \<Rightarrow> Some (v + box / 2 - w / 2, v + box / 2 + w / 2)))"

definition subtree_span :: "FlowNode list \<Rightarrow> MindMapNode \<Rightarrow> nat list \<Rightarrow> (rat \<times> rat) option" where
  "subtree_span nodes t path =
     (case subtree_at t path of
        None \<Rightarrow> None
      | Some n \<Rightarrow> allocated_span NODE_WIDTH (fn_x (nodes ! emit_index t path)) (width n))"

definition subtree_span_lr :: "FlowNode list \<Rightarrow> MindMapNode \<Rightarrow> nat list \<Rightarrow> (rat \<times> rat) option" where
  "subtree_span_lr nodes t path =
     (case subtree_at t path of
        None \<Rightarrow> None
      | Some n \<Rightarrow> allocated_span LR_NODE_HEIGHT (fn_y (nodes ! emit_index t path)) (height n))"

text \<open>The first span ends at least \<open>gap\<close> before the second begins.\<close>

definition separated :: "rat \<Rightarrow> (rat \<times> rat) option \<Rightarrow> (rat \<times> rat) option \<Rightarrow> bool" where
  "separated gap a b =
     (case a of
        None \<Rightarrow> False
      | Some (lo1, hi1) \<Rightarrow> (case b of None \<Rightarrow> False | Some (lo2, hi2) \<Rightarrow> hi1 + gap \<le> lo2))"

text \<open>
  The combined span of the children of the node at a path: from the start of the first
  child's span to the end of the last child's span.
\<close>

definition combined :: "(rat \<times> rat) option \<Rightarrow> (rat \<times> rat) option \<Rightarrow> (rat \<times> rat) option" where
  "combined a b =
     (case a of
        None \<Rightarrow> None
      | Some (lo1, hi1) \<Rightarrow> (case b of None \<Rightarrow> None | Some (lo2, hi2) \<Rightarrow> Some (lo1, hi2)))"

definition children_span :: "FlowNode list \<Rightarrow> MindMapNode \<Rightarrow> nat list \<Rightarrow> (rat \<times> rat) option" where
  "children_span nodes t path =
     (case subtree_at t path of
        None \<Rightarrow> None
      | Some n \<Rightarrow>
          (if children n = [] then None
           else combined (subtree_span nodes t (path @ [0]))
                         (subtree_span nodes t (path @ [length (children n) - 1]))))"

definition children_span_lr :: "FlowNode list \<Rightarrow> MindMapNode \<Rightarrow> nat list \<Rightarrow> (rat \<times> rat) option" where
  "children_span_lr nodes t path =
     (case subtree_at t path of
        None \<Rightarrow> None
      | Some n \<Rightarrow>
          (if children n = [] then None
           else combined (subtree_span_lr nodes t (path @ [0]))
                         (subtree_span_lr nodes t (path @ [length (children n) - 1]))))"

definition midpoint :: "(rat \<times> rat) option \<Rightarrow> number" where
  "midpoint a = (case a of None \<Rightarrow> None | Some (lo, hi) \<Rightarrow> Some ((lo + hi) / 2))"

text \<open>The centre of a box of the given size whose corner is at the emitted coordinate.\<close>

definition box_centre :: "rat \<Rightarrow> number \<Rightarrow> number" where
  "box_centre box pos = (case pos of None \<Rightarrow> None | Some v \<Rightarrow> Some (v + box / 2))"

subsection \<open>Edges\<close>

text \<open>
  One edge record per node below the root, from the id of its parent, in pre-order; and the
  trees in which every node that has children has a non-empty id.
\<close>

fun expected_edges :: "MindMapOptions \<Rightarrow> MindMapNode \<Rightarrow> FlowEdge list" where
  "expected_edges opts (MindMapNode i l s q p cs w h) =
     concat (map (\<lambda>c. flow_edge i c opts # expected_edges opts c) cs)"

fun named_parents :: "MindMapNode \<Rightarrow> bool" where
  "named_parents (MindMapNode i l s q p cs w h) =
     ((cs = [] \<or> i \<noteq> []) \<and> list_all named_parents cs)"

subsection \<open>What one call appends\<close>

text \<open>
  The records a call of an assigner appends to empty arrays. Every call appends the same
  records to whatever the arrays hold (lemmas \<open>assignPositions_acc\<close>,
  \<open>assignChildren_lr_acc\<close>). \<open>cursor_after\<close> is the cursor of the \<^verbatim>\<open>forEach\<close> after the
  given children; \<open>origin_at\<close> is the cursor at which the node at a path is laid out when
  all footprints are numbers.
\<close>

definition nodes_of ::
  "MindMapNode \<Rightarrow> number \<Rightarrow> number \<Rightarrow> MindMapOptions \<Rightarrow> string option \<Rightarrow> FlowNode list" where
  "nodes_of t x y opts pid = fst (assignPositions t x y [] [] opts pid)"

definition child_nodes ::
  "MindMapNode list \<Rightarrow> number \<Rightarrow> number \<Rightarrow> MindMapOptions \<Rightarrow> string \<Rightarrow> FlowNode list" where
  "child_nodes cs cx y opts pid = fst (assignChildren cs cx y [] [] opts pid)"

definition edges_of ::
  "MindMapNode \<Rightarrow> number \<Rightarrow> number \<Rightarrow> MindMapOptions \<Rightarrow> string option \<Rightarrow> FlowEdge list" where
  "edges_of t x y opts pid = snd (assignPositions t x y [] [] opts pid)"

definition child_edges ::
  "MindMapNode list \<Rightarrow> number \<Rightarrow> number \<Rightarrow> MindMapOptions \<Rightarrow> string \<Rightarrow> FlowEdge list" where
  "child_edges cs cx y opts pid = snd (assignChildren cs cx y [] [] opts pid)"

definition nodes_of_lr ::
  "MindMapNode \<Rightarrow> number \<Rightarrow> number \<Rightarrow> MindMapOptions \<Rightarrow> string option \<Rightarrow> FlowNode list" where
  "nodes_of_lr t x y opts pid = fst (assignPositions_lr t x y [] [] opts pid)"

definition child_nodes_lr ::
  "MindMapNode list \<Rightarrow> number \<Rightarrow> number \<Rightarrow> MindMapOptions \<Rightarrow> string \<Rightarrow> FlowNode list" where
  "child_nodes_lr cs cx cy opts pid = fst (assignChildren_lr cs cx cy [] [] opts pid)"

definition edges_of_lr ::
  "MindMapNode \<Rightarrow> number \<Rightarrow> number \<Rightarrow> MindMapOptions \<Rightarrow> string option \<Rightarrow> FlowEdge list" where
  "edges_of_lr t x y opts pid = snd (assignPositions_lr t x y [] [] opts pid)"

definition child_edges_lr ::
  "MindMapNode list \<Rightarrow> number \<Rightarrow> number \<Rightarrow> MindMapOptions \<Rightarrow> string \<Rightarrow> FlowEdge list" where
  "child_edges_lr cs cx cy opts pid = snd (assignChildren_lr cs cx cy [] [] opts pid)"

fun cursor_after :: "(MindMapNode \<Rightarrow> number) \<Rightarrow> rat \<Rightarrow> number \<Rightarrow> MindMapNode list \<Rightarrow> number" where
  "cursor_after fp sp cur [] = cur"
| "cursor_after fp sp cur (c # cs) = cursor_after fp sp (js_add cur (js_add (fp c) (Some sp))) cs"

fun origin_at ::
  "(MindMapNode \<Rightarrow> number) \<Rightarrow> rat \<Rightarrow> MindMapNode \<Rightarrow> rat \<Rightarrow> nat list \<Rightarrow> rat" where
  "origin_at fp sp t org [] = org"
| "origin_at fp sp t org (i # path) =
     origin_at fp sp (children t ! i)
       (org + sum_list (map (\<lambda>c. or_zero (fp c) + sp) (take i (children t)))) path"

subsection \<open>Concrete trees\<close>

text \<open>Nodes that carry only an id and children; no footprint is set yet.\<close>

definition leaf :: "string \<Rightarrow> MindMapNode" where
  "leaf i = MindMapNode i '''' '''' None 1 [] None None"

definition branch :: "string \<Rightarrow> MindMapNode list \<Rightarrow> MindMapNode" where
  "branch i cs = MindMapNode i '''' '''' None 1 cs None None"

text \<open>The tree \<open>root \<rightarrow> [A \<rightarrow> [A1, A2], B]\<close>.\<close>

definition scenario_tree :: MindMapNode where
  "scenario_tree = branch ''root'' [branch ''A'' [leaf ''A1'', leaf ''A2''], leaf ''B'']"

text \<open>A root with the empty id and one child.\<close>

definition unnamed_parent_tree :: MindMapNode where
  "unnamed_parent_tree = branch '''' [leaf ''a'']"

text \<open>The options both components start with: \<^verbatim>\<open>{edgeType: 'smoothstep', fontSize: 'medium'}\<close>.\<close>

definition default_options :: MindMapOptions where
  "default_options = \<lparr>edgeType = ET_smoothstep, fontSize = FS_medium\<rparr>"

section \<open>Properties of the reconstruction\<close>

subsection \<open>The Map\<close>

lemma map_get_set: "map_get (map_set m k v) k' = (if k' = k then Some v else map_get m k')"
  by (induction m) auto

lemma map_get_keys: "(map_get m k \<noteq> None) = (k \<in> set (map_keys m))"
  by (induction m) (auto simp: map_keys_def)

lemma map_keys_set:
  "map_keys (map_set m k v) = (if k \<in> set (map_keys m) then map_keys m else map_keys m @ [k])"
  by (induction m) (force simp: map_keys_def)+

lemma map_keys_Nil [simp]: "map_keys [] = []"
  by (simp add: map_keys_def)

lemma map_keys_set_present: "map_get m k = Some v' \<Longrightarrow> map_keys (map_set m k v) = map_keys m"
  using map_get_keys [of m k] by (simp add: map_keys_set)

lemma distinct_map_set: "distinct (map_keys m) \<Longrightarrow> distinct (map_keys (map_set m k v))"
  by (simp add: map_keys_set)

subsection \<open>The first builder: keys and root\<close>

text \<open>The first pass creates one object per distinct id, in the order of first appearance.\<close>

lemma keys_fold_set:
  "set (map_keys (foldl (\<lambda>m raw. map_set m (f raw) (g raw)) m0 xs)) = set (map_keys m0) \<union> f ` set xs"
  by (induction xs arbitrary: m0) (auto simp: map_keys_set)

lemma distinct_fold_set:
  "distinct (map_keys m0) \<Longrightarrow> distinct (map_keys (foldl (\<lambda>m raw. map_set m (f raw) (g raw)) m0 xs))"
  by (induction xs arbitrary: m0) (auto simp: distinct_map_set)

lemma hd_keys_set: "m \<noteq> [] \<Longrightarrow> hd (map_keys (map_set m k v)) = hd (map_keys m)"
  by (cases m) (auto simp: map_keys_def)

lemma map_set_nonempty: "map_set m k v \<noteq> []"
  by (induction m k v rule: map_set.induct) auto

lemma hd_keys_fold:
  "m0 \<noteq> [] \<Longrightarrow> hd (map_keys (foldl (\<lambda>m raw. map_set m (f raw) (g raw)) m0 xs)) = hd (map_keys m0)
     \<and> foldl (\<lambda>m raw. map_set m (f raw) (g raw)) m0 xs \<noteq> []"
  by (induction xs arbitrary: m0) (auto simp: hd_keys_set map_set_nonempty)

lemma create_all_keys: "set (map_keys (create_all flatNodes)) = raw_id ` set flatNodes"
  by (simp add: create_all_def keys_fold_set)

lemma create_all_hd:
  "flatNodes \<noteq> [] \<Longrightarrow> create_all flatNodes \<noteq> [] \<and> hd (map_keys (create_all flatNodes)) = raw_id (hd flatNodes)"
proof (cases flatNodes)
  case Nil then show "flatNodes \<noteq> [] \<Longrightarrow> ?thesis" by simp
next
  case (Cons a rest)
  have "[(raw_id a, create_node a)] \<noteq> []" by simp
  from hd_keys_fold [OF this, of raw_id create_node rest] Cons
  show ?thesis by (simp add: create_all_def map_keys_def)
qed

text \<open>The linking pass keeps the keys and fixes the root at the first root candidate.\<close>

lemma link_step_keys: "map_keys (fst (link_step (m, r) raw)) = map_keys m"
  by (auto simp: link_step_def map_keys_set_present split: option.splits)

lemma link_step_root_mono: "snd (link_step (m, Some k) raw) = Some k"
  by (auto simp: link_step_def split: option.splits)

lemma link_step_root:
  "raw_id raw \<in> set (map_keys m) \<Longrightarrow>
   snd (link_step (m, r) raw) =
     (case r of Some k \<Rightarrow> Some k | None \<Rightarrow> if truthy (pId_of raw) then None else Some (raw_id raw))"
  using map_get_keys [of m "raw_id raw"]
  by (auto simp: link_step_def split: option.splits)

lemma foldl_link_keys: "map_keys (fst (foldl link_step (m, r) xs)) = map_keys m"
proof (induction xs arbitrary: m r)
  case Nil show ?case by simp
next
  case (Cons a xs)
  obtain m' r' where st: "link_step (m, r) a = (m', r')" by (cases "link_step (m, r) a")
  with link_step_keys [of m r a] have "map_keys m' = map_keys m" by simp
  with Cons [of m' r'] st show ?case by simp
qed

lemma foldl_link_root:
  "raw_id ` set xs \<subseteq> set (map_keys m) \<Longrightarrow>
   snd (foldl link_step (m, r) xs) =
     (case r of Some k \<Rightarrow> Some k
      | None \<Rightarrow> map_option raw_id (find (\<lambda>raw. \<not> truthy (pId_of raw)) xs))"
proof (induction xs arbitrary: m r)
  case Nil show ?case by (simp split: option.splits)
next
  case (Cons a xs)
  obtain m' r' where st: "link_step (m, r) a = (m', r')" by (cases "link_step (m, r) a")
  from link_step_keys [of m r a] st have k: "map_keys m' = map_keys m" by simp
  from Cons.prems have a: "raw_id a \<in> set (map_keys m)" by simp
  from link_step_root [OF a, of r] st
  have r': "r' = (case r of Some k \<Rightarrow> Some k | None \<Rightarrow> if truthy (pId_of a) then None else Some (raw_id a))"
    by simp
  from Cons.prems k have "raw_id ` set xs \<subseteq> set (map_keys m')" by simp
  from Cons.IH [OF this, of r'] st r' show ?case by (simp split: option.splits)
qed

lemma build_nonempty:
  assumes "flatNodes \<noteq> []"
  shows "\<exists>d. buildTreeFromFlatList flatNodes = Inr d \<and> root d = first_root flatNodes
           \<and> map_keys (nodeMap d) = map_keys (create_all flatNodes)"
proof -
  obtain m r where st: "link_all (create_all flatNodes) flatNodes = (m, r)"
    by (cases "link_all (create_all flatNodes) flatNodes")
  from foldl_link_keys [of "create_all flatNodes" None flatNodes] st
  have keys: "map_keys m = map_keys (create_all flatNodes)" by (simp add: link_all_def)
  have sub: "raw_id ` set flatNodes \<subseteq> set (map_keys (create_all flatNodes))"
    by (simp add: create_all_keys)
  from foldl_link_root [OF sub, of None] st
  have r: "r = map_option raw_id (find (\<lambda>raw. \<not> truthy (pId_of raw)) flatNodes)"
    by (simp add: link_all_def)
  from create_all_hd [OF assms] keys have ne: "m \<noteq> []" and hd: "hd (map_keys m) = raw_id (hd flatNodes)"
    by (auto simp: map_keys_def)
  show ?thesis
  proof (cases r)
    case None
    from ne obtain k v rest where m: "m = (k, v) # rest" by (cases m) auto
    with hd have "k = raw_id (hd flatNodes)" by (simp add: map_keys_def)
    with None r m st keys show ?thesis
      by (simp add: buildTreeFromFlatList_def first_root_def)
  next
    case (Some k)
    with r st keys show ?thesis
      by (auto simp: buildTreeFromFlatList_def first_root_def split: option.splits)
  qed
qed

lemma build_empty: "buildTreeFromFlatList [] = Inl EmptyMindMap"
  by (simp add: buildTreeFromFlatList_def link_all_def create_all_def)

lemma child_links_Nil [simp]: "child_links [] = []"
  by (simp add: child_links_def)

lemma child_links_Cons [simp]:
  "child_links ((k, n) # m) = map (Pair k) (obj_children n) @ child_links m"
  by (simp add: child_links_def)

lemma snd_child_links_Cons [simp]:
  "map snd (child_links ((k, n) # m)) = obj_children n @ map snd (child_links m)"
  by (simp add: comp_def)

lemma child_links_push:
  "map_get m p = Some parent \<Longrightarrow>
   set (child_links (map_set m p (parent\<lparr>obj_children := obj_children parent @ [c]\<rparr>)))
     = insert (p, c) (set (child_links m))"
proof (induction m)
  case Nil
  then show ?case by simp
next
  case (Cons x m)
  obtain a b where x: "x = (a, b)" by (cases x)
  show ?case
  proof (cases "a = p")
    case True
    with Cons.prems x have "b = parent" by simp
    with True x show ?thesis by auto
  next
    case False
    with Cons.prems x have "map_get m p = Some parent" by simp
    from Cons.IH [OF this] False x show ?thesis by auto
  qed
qed

lemma all_children_Nil [simp]: "all_children [] = []"
  by (simp add: all_children_def)

lemma all_children_Cons [simp]: "all_children ((k, n) # m) = obj_children n @ all_children m"
  by (simp add: all_children_def)

lemma snd_child_links: "map snd (child_links m) = all_children m"
  by (induction m) (auto simp: comp_def)

lemma all_children_push_set:
  "map_get m p = Some parent \<Longrightarrow>
   set (all_children (map_set m p (parent\<lparr>obj_children := obj_children parent @ [c]\<rparr>)))
     = insert c (set (all_children m))"
proof (induction m)
  case Nil
  then show ?case by simp
next
  case (Cons x m)
  obtain a b where x: "x = (a, b)" by (cases x)
  show ?case
  proof (cases "a = p")
    case True
    with Cons.prems x have "b = parent" by simp
    with True x show ?thesis by auto
  next
    case False
    with Cons.prems x have "map_get m p = Some parent" by simp
    from Cons.IH [OF this] False x show ?thesis by auto
  qed
qed

lemma all_children_push_distinct:
  "map_get m p = Some parent \<Longrightarrow>
   distinct (all_children (map_set m p (parent\<lparr>obj_children := obj_children parent @ [c]\<rparr>)))
     = (distinct (all_children m) \<and> c \<notin> set (all_children m))"
proof (induction m)
  case Nil
  then show ?case by simp
next
  case (Cons x m)
  obtain a b where x: "x = (a, b)" by (cases x)
  show ?case
  proof (cases "a = p")
    case True
    with Cons.prems x have "b = parent" by simp
    with True x show ?thesis by auto
  next
    case False
    with Cons.prems x have g: "map_get m p = Some parent" by simp
    from Cons.IH [OF g] all_children_push_set [OF g, of c] False x show ?thesis by auto
  qed
qed

lemma own_ancestor_mono: "set a \<subseteq> set b \<Longrightarrow> own_ancestor a k \<Longrightarrow> own_ancestor b k"
  unfolding own_ancestor_def using trancl_mono by blast

subsection \<open>Links of the first builder\<close>

text \<open>After the first pass no object has a child.\<close>

lemma all_children_set_fresh:
  "all_children m = [] \<Longrightarrow> obj_children v = [] \<Longrightarrow> all_children (map_set m k v) = []"
  by (induction m k v rule: map_set.induct) auto

lemma all_children_fold_fresh:
  "all_children m0 = [] \<Longrightarrow> (\<And>raw. obj_children (g raw) = []) \<Longrightarrow>
   all_children (foldl (\<lambda>m raw. map_set m (f raw) (g raw)) m0 xs) = []"
  by (induction xs arbitrary: m0) (auto simp: all_children_set_fresh)

lemma create_all_children: "all_children (create_all flatNodes) = []"
  by (simp add: create_all_def all_children_fold_fresh create_node_def)

lemma init_all_children: "all_children (init_all flatNodes) = []"
  by (simp add: init_all_def all_children_fold_fresh init_node_def)

lemma child_links_empty: "all_children m = [] \<Longrightarrow> child_links m = []"
  using snd_child_links [of m] by simp

text \<open>Every link the first builder makes is a declared reference.\<close>

lemma link_step_links:
  "set (child_links (fst (link_step (m, r) raw))) \<subseteq> set (child_links m) \<union> set (declared_links [raw])"
  by (auto simp: link_step_def declared_links_def child_links_push split: option.splits)

lemma declared_links_Cons: "set (declared_links (a # xs)) = set (declared_links [a]) \<union> set (declared_links xs)"
  by (auto simp: declared_links_def)

lemma foldl_link_links:
  "set (child_links (fst (foldl link_step (m, r) xs))) \<subseteq> set (child_links m) \<union> set (declared_links xs)"
proof (induction xs arbitrary: m r)
  case Nil show ?case by simp
next
  case (Cons a xs)
  obtain m' r' where st: "link_step (m, r) a = (m', r')" by (cases "link_step (m, r) a")
  from link_step_links [of m r a] st
  have 1: "set (child_links m') \<subseteq> set (child_links m) \<union> set (declared_links [a])" by simp
  from Cons.IH [of m' r'] st 1 show ?case
    by (simp only: foldl_Cons declared_links_Cons [of a xs]) blast
qed

lemma build_links:
  assumes "buildTreeFromFlatList flatNodes = Inr d"
  shows "set (child_links (nodeMap d)) \<subseteq> set (declared_links flatNodes)"
proof -
  obtain m r where st: "link_all (create_all flatNodes) flatNodes = (m, r)"
    by (cases "link_all (create_all flatNodes) flatNodes")
  from foldl_link_links [of "create_all flatNodes" None flatNodes] st
  have "set (child_links m) \<subseteq> set (declared_links flatNodes)"
    by (simp add: link_all_def child_links_empty [OF create_all_children])
  moreover from assms st have "nodeMap d = m"
    by (auto simp: buildTreeFromFlatList_def split: option.splits list.splits)
  ultimately show ?thesis by simp
qed

text \<open>With distinct ids every push adds a key that no \<^verbatim>\<open>children\<close> array holds yet.\<close>

lemma link_step_children:
  "set (all_children (fst (link_step (m, r) raw))) \<subseteq> insert (raw_id raw) (set (all_children m))"
  by (auto simp: link_step_def all_children_push_set split: option.splits)

lemma link_step_distinct:
  "distinct (all_children m) \<Longrightarrow> raw_id raw \<notin> set (all_children m) \<Longrightarrow>
   distinct (all_children (fst (link_step (m, r) raw)))"
  by (auto simp: link_step_def all_children_push_distinct split: option.splits)

lemma foldl_link_distinct:
  "distinct (all_children m) \<Longrightarrow> distinct (map raw_id xs) \<Longrightarrow>
   \<forall>x \<in> set xs. raw_id x \<notin> set (all_children m) \<Longrightarrow>
   distinct (all_children (fst (foldl link_step (m, r) xs)))"
proof (induction xs arbitrary: m r)
  case Nil then show ?case by simp
next
  case (Cons a xs)
  obtain m' r' where st: "link_step (m, r) a = (m', r')" by (cases "link_step (m, r) a")
  from Cons.prems(3) have fresh: "raw_id a \<notin> set (all_children m)" by simp
  from link_step_distinct [OF Cons.prems(1) fresh, of r] st have d: "distinct (all_children m')" by simp
  from link_step_children [of m r a] st
  have s: "set (all_children m') \<subseteq> insert (raw_id a) (set (all_children m))" by simp
  from Cons.prems(2) have dx: "distinct (map raw_id xs)" and "raw_id a \<notin> raw_id ` set xs"
    by simp_all
  then have da: "\<forall>x \<in> set xs. raw_id x \<noteq> raw_id a"
    by (metis imageI)
  have "\<forall>x \<in> set xs. raw_id x \<notin> set (all_children m')"
  proof
    fix x assume x: "x \<in> set xs"
    with Cons.prems(3) have "raw_id x \<notin> set (all_children m)" by simp
    moreover from da x have "raw_id x \<noteq> raw_id a" by simp
    ultimately show "raw_id x \<notin> set (all_children m')" using s by blast
  qed
  from Cons.IH [OF d dx this, of r'] st show ?case by simp
qed

subsection \<open>The builder with the synthetic root\<close>

lemma map_has_keys: "map_has m k = (k \<in> set (map_keys m))"
  unfolding map_has_def by (rule map_get_keys)

lemma init_all_keys: "set (map_keys (init_all flatNodes)) = safeId ` set flatNodes"
  by (simp add: init_all_def keys_fold_set)

lemma attach_step_keys: "map_keys (fst (attach_step (m, sr) raw)) = map_keys m"
  by (auto simp: attach_step_def map_keys_set_present split: option.splits)

lemma attach_step_top:
  "safeId raw \<in> set (map_keys m) \<Longrightarrow> top_level (map_keys m) raw \<Longrightarrow>
   attach_step (m, sr) raw = (m, sr\<lparr>obj_children := obj_children sr @ [safeId raw]\<rparr>)"
  using map_get_keys [of m "safeId raw"]
  by (auto simp: attach_step_def top_level_def map_has_keys split: option.splits)

lemma attach_step_child:
  "safeId raw \<in> set (map_keys m) \<Longrightarrow> \<not> top_level (map_keys m) raw \<Longrightarrow>
   \<exists>pId parent. clean_parentId raw = Some pId \<and> pId \<noteq> [] \<and> map_get m pId = Some parent \<and>
     attach_step (m, sr) raw =
       (map_set m pId (parent\<lparr>obj_children := obj_children parent @ [safeId raw]\<rparr>), sr)"
  using map_get_keys [of m "safeId raw"] map_get_keys [of m "the (clean_parentId raw)"]
  by (auto simp: attach_step_def top_level_def map_has_keys split: option.splits)

lemma attach_step_absent:
  "safeId raw \<notin> set (map_keys m) \<Longrightarrow> attach_step (m, sr) raw = (m, sr)"
  using map_get_keys [of m "safeId raw"]
  by (auto simp: attach_step_def split: option.splits)

lemma attach_step_root_fields:
  "snd (attach_step (m, sr) raw)\<lparr>obj_children := []\<rparr> = sr\<lparr>obj_children := []\<rparr>"
  by (auto simp: attach_step_def split: option.splits)

lemma attach_step_root_mono:
  "set (obj_children sr) \<subseteq> set (obj_children (snd (attach_step (m, sr) raw)))"
  by (auto simp: attach_step_def split: option.splits)

lemma foldl_attach_keys: "map_keys (fst (foldl attach_step (m, sr) xs)) = map_keys m"
proof (induction xs arbitrary: m sr)
  case Nil show ?case by simp
next
  case (Cons a xs)
  obtain m' sr' where st: "attach_step (m, sr) a = (m', sr')" by (cases "attach_step (m, sr) a")
  with attach_step_keys [of m sr a] have "map_keys m' = map_keys m" by simp
  with Cons [of m' sr'] st show ?case by simp
qed

lemma foldl_attach_root_fields:
  "snd (foldl attach_step (m, sr) xs)\<lparr>obj_children := []\<rparr> = sr\<lparr>obj_children := []\<rparr>"
proof (induction xs arbitrary: m sr)
  case Nil show ?case by simp
next
  case (Cons a xs)
  obtain m' sr' where st: "attach_step (m, sr) a = (m', sr')" by (cases "attach_step (m, sr) a")
  with attach_step_root_fields [of m sr a] have "sr'\<lparr>obj_children := []\<rparr> = sr\<lparr>obj_children := []\<rparr>" by simp
  with Cons [of m' sr'] st show ?case by simp
qed

lemma foldl_attach_root_mono:
  "set (obj_children sr) \<subseteq> set (obj_children (snd (foldl attach_step (m, sr) xs)))"
proof (induction xs arbitrary: m sr)
  case Nil show ?case by simp
next
  case (Cons a xs)
  obtain m' sr' where st: "attach_step (m, sr) a = (m', sr')" by (cases "attach_step (m, sr) a")
  with attach_step_root_mono [of sr m a] have "set (obj_children sr) \<subseteq> set (obj_children sr')" by simp
  with Cons [of sr' m'] st show ?case by auto
qed

lemma foldl_attach_top:
  "raw \<in> set xs \<Longrightarrow> safeId raw \<in> set (map_keys m) \<Longrightarrow> top_level (map_keys m) raw \<Longrightarrow>
   safeId raw \<in> set (obj_children (snd (foldl attach_step (m, sr) xs)))"
proof (induction xs arbitrary: m sr)
  case Nil then show ?case by simp
next
  case (Cons a xs)
  obtain m' sr' where st: "attach_step (m, sr) a = (m', sr')" by (cases "attach_step (m, sr) a")
  with attach_step_keys [of m sr a] have k: "map_keys m' = map_keys m" by simp
  show ?case
  proof (cases "raw = a")
    case True
    with attach_step_top [OF Cons.prems(2,3), of sr] st
    have "safeId raw \<in> set (obj_children sr')" by auto
    with foldl_attach_root_mono [of sr' m' xs] st show ?thesis by auto
  next
    case False
    with Cons.prems have "raw \<in> set xs" by simp
    from Cons.IH [OF this, of m' sr'] Cons.prems k st show ?thesis by simp
  qed
qed

text \<open>The builder with the synthetic root always returns, with that root.\<close>

lemma build_synthetic_result:
  "\<exists>d. buildTreeFromFlatList_synthetic flatNodes = Inr d
     \<and> map_keys (syn_nodeMap d) = map_keys (init_all flatNodes)
     \<and> syn_nodeMap d = fst (attach_all (init_all flatNodes) flatNodes)
     \<and> set (obj_children (snd (attach_all (init_all flatNodes) flatNodes))) \<subseteq> set (obj_children (syn_root d))
     \<and> syn_root d\<lparr>obj_children := []\<rparr> = syntheticRoot"
proof -
  obtain m sr where st: "attach_all (init_all flatNodes) flatNodes = (m, sr)"
    by (cases "attach_all (init_all flatNodes) flatNodes")
  from foldl_attach_keys [of "init_all flatNodes" syntheticRoot flatNodes] st
  have keys: "map_keys m = map_keys (init_all flatNodes)" by (simp add: attach_all_def)
  from foldl_attach_root_fields [of "init_all flatNodes" syntheticRoot flatNodes] st
  have "sr\<lparr>obj_children := []\<rparr> = syntheticRoot" by (simp add: attach_all_def syntheticRoot_def)
  with st keys show ?thesis
    by (auto simp: buildTreeFromFlatList_synthetic_def)
qed

lemma dangling_attached:
  assumes "buildTreeFromFlatList_synthetic flatNodes = Inr d"
    and "raw \<in> set flatNodes"
    and "top_level (map safeId flatNodes) raw"
  shows "safeId raw \<in> set (obj_children (syn_root d))"
proof -
  have keys: "set (map_keys (init_all flatNodes)) = set (map safeId flatNodes)"
    by (simp add: init_all_keys)
  have t: "top_level (map_keys (init_all flatNodes)) raw"
    using assms(3) unfolding top_level_def keys .
  have "safeId raw \<in> set (map_keys (init_all flatNodes))" using assms(2) keys by simp
  from foldl_attach_top [OF assms(2) this t, of syntheticRoot]
  have "safeId raw \<in> set (obj_children (snd (attach_all (init_all flatNodes) flatNodes)))"
    by (simp add: attach_all_def)
  with build_synthetic_result [of flatNodes] assms(1) show ?thesis by auto
qed

text \<open>Every link between objects of the map is a declared reference.\<close>

lemma declared_links_syn_Cons:
  "set (declared_links_syn (a # xs)) = set (declared_links_syn [a]) \<union> set (declared_links_syn xs)"
  by (simp add: declared_links_syn_def)

lemma attach_step_links:
  "set (child_links (fst (attach_step (m, sr) raw))) \<subseteq> set (child_links m) \<union> set (declared_links_syn [raw])"
  by (auto simp: attach_step_def declared_links_syn_def child_links_push split: option.splits)

lemma foldl_attach_links:
  "set (child_links (fst (foldl attach_step (m, sr) xs))) \<subseteq> set (child_links m) \<union> set (declared_links_syn xs)"
proof (induction xs arbitrary: m sr)
  case Nil show ?case by simp
next
  case (Cons a xs)
  obtain m' sr' where st: "attach_step (m, sr) a = (m', sr')" by (cases "attach_step (m, sr) a")
  from attach_step_links [of m sr a] st
  have 1: "set (child_links m') \<subseteq> set (child_links m) \<union> set (declared_links_syn [a])" by simp
  from Cons.IH [of m' sr'] st 1 show ?case
    by (simp only: foldl_Cons declared_links_syn_Cons [of a xs]) blast
qed

lemma build_synthetic_links:
  assumes "buildTreeFromFlatList_synthetic flatNodes = Inr d"
  shows "set (child_links (syn_nodeMap d)) \<subseteq> set (declared_links_syn flatNodes)"
proof -
  from build_synthetic_result [of flatNodes] assms
  have "syn_nodeMap d = fst (attach_all (init_all flatNodes) flatNodes)" by auto
  with foldl_attach_links [of "init_all flatNodes" syntheticRoot flatNodes]
  show ?thesis by (simp add: attach_all_def child_links_empty [OF init_all_children])
qed

text \<open>No link leads to the synthetic root, so a cycle lies among the objects of the map.\<close>

lemma syn_links_target:
  "(a, b) \<in> (set (syn_links d))\<^sup>+ \<Longrightarrow>
   \<exists>b'. b = Some b' \<and> (\<forall>a'. a = Some a' \<longrightarrow> (a', b') \<in> (set (child_links (syn_nodeMap d)))\<^sup>+)"
proof (induction rule: trancl_induct)
  case (base y)
  then show ?case by (auto simp: syn_links_def)
next
  case (step y z)
  from step.IH obtain y' where y: "y = Some y'"
    and h: "\<forall>a'. a = Some a' \<longrightarrow> (a', y') \<in> (set (child_links (syn_nodeMap d)))\<^sup>+" by blast
  from step.hyps(2) y obtain z' where z: "z = Some z'"
    and yz: "(y', z') \<in> set (child_links (syn_nodeMap d))" by (auto simp: syn_links_def)
  from h yz have "\<forall>a'. a = Some a' \<longrightarrow> (a', z') \<in> (set (child_links (syn_nodeMap d)))\<^sup>+"
    by (auto intro: trancl_into_trancl)
  with z show ?case by simp
qed

lemma syn_own_ancestor:
  "own_ancestor (syn_links d) k \<Longrightarrow> \<exists>k'. k = Some k' \<and> own_ancestor (child_links (syn_nodeMap d)) k'"
  unfolding own_ancestor_def using syn_links_target [of k k d] by auto

text \<open>With distinct keys every push adds a key that no \<^verbatim>\<open>children\<close> array holds yet.\<close>

lemma attach_step_children:
  "set (obj_children (snd (attach_step (m, sr) raw)) @ all_children (fst (attach_step (m, sr) raw)))
     \<subseteq> insert (safeId raw) (set (obj_children sr @ all_children m))"
  by (auto simp: attach_step_def all_children_push_set split: option.splits)

lemma attach_step_distinct:
  "distinct (obj_children sr @ all_children m) \<Longrightarrow> safeId raw \<notin> set (obj_children sr @ all_children m) \<Longrightarrow>
   distinct (obj_children (snd (attach_step (m, sr) raw)) @ all_children (fst (attach_step (m, sr) raw)))"
  by (auto simp: attach_step_def all_children_push_distinct all_children_push_set split: option.splits)

lemma foldl_attach_distinct:
  "distinct (obj_children sr @ all_children m) \<Longrightarrow> distinct (map safeId xs) \<Longrightarrow>
   \<forall>x \<in> set xs. safeId x \<notin> set (obj_children sr @ all_children m) \<Longrightarrow>
   distinct (obj_children (snd (foldl attach_step (m, sr) xs)) @ all_children (fst (foldl attach_step (m, sr) xs)))"
proof (induction xs arbitrary: m sr)
  case Nil then show ?case by simp
next
  case (Cons a xs)
  obtain m' sr' where st: "attach_step (m, sr) a = (m', sr')" by (cases "attach_step (m, sr) a")
  from Cons.prems(3) have fresh: "safeId a \<notin> set (obj_children sr @ all_children m)" by simp
  from attach_step_distinct [OF Cons.prems(1) fresh] st
  have d: "distinct (obj_children sr' @ all_children m')" by simp
  from attach_step_children [of m sr a] st
  have s: "set (obj_children sr' @ all_children m') \<subseteq> insert (safeId a) (set (obj_children sr @ all_children m))"
    by simp
  from Cons.prems(2) have dx: "distinct (map safeId xs)" and "safeId a \<notin> safeId ` set xs"
    by simp_all
  then have da: "\<forall>x \<in> set xs. safeId x \<noteq> safeId a"
    by (metis imageI)
  have "\<forall>x \<in> set xs. safeId x \<notin> set (obj_children sr' @ all_children m')"
  proof
    fix x assume x: "x \<in> set xs"
    with Cons.prems(3) have "safeId x \<notin> set (obj_children sr @ all_children m)" by simp
    moreover from da x have "safeId x \<noteq> safeId a" by simp
    ultimately show "safeId x \<notin> set (obj_children sr' @ all_children m')" using s by blast
  qed
  from Cons.IH [OF d dx this] st show ?case by simp
qed

lemma foldl_attach_top_nonempty:
  "\<exists>raw \<in> set xs. safeId raw \<in> set (map_keys m) \<and> top_level (map_keys m) raw \<Longrightarrow>
   obj_children (snd (foldl attach_step (m, sr) xs)) \<noteq> []"
  using foldl_attach_top [of _ xs m sr] by fastforce

subsection \<open>Ids and keys\<close>

lemma keyed_Nil [simp]: "keyed []"
  by (simp add: keyed_def)

lemma keyed_Cons [simp]: "keyed ((k, n) # m) = (obj_id n = k \<and> keyed m)"
  by (simp add: keyed_def)

lemma keyed_set: "keyed m \<Longrightarrow> obj_id v = k \<Longrightarrow> keyed (map_set m k v)"
  by (induction m k v rule: map_set.induct) auto

lemma keyed_get: "keyed m \<Longrightarrow> map_get m k = Some v \<Longrightarrow> obj_id v = k"
  by (induction m k rule: map_get.induct) (auto split: if_splits)

lemma keyed_fold:
  "keyed m0 \<Longrightarrow> (\<And>raw. obj_id (g raw) = f raw) \<Longrightarrow>
   keyed (foldl (\<lambda>m raw. map_set m (f raw) (g raw)) m0 xs)"
  by (induction xs arbitrary: m0) (auto simp: keyed_set)

lemma create_all_keyed: "keyed (create_all flatNodes)"
  by (simp add: create_all_def keyed_fold create_node_def)

lemma init_all_keyed: "keyed (init_all flatNodes)"
  by (simp add: init_all_def keyed_fold init_node_def)

lemma link_step_keyed: "keyed m \<Longrightarrow> keyed (fst (link_step (m, r) raw))"
  by (auto simp: link_step_def keyed_set keyed_get split: option.splits)

lemma attach_step_keyed: "keyed m \<Longrightarrow> keyed (fst (attach_step (m, sr) raw))"
  by (auto simp: attach_step_def keyed_set keyed_get split: option.splits)

lemma foldl_link_keyed: "keyed m \<Longrightarrow> keyed (fst (foldl link_step (m, r) xs))"
proof (induction xs arbitrary: m r)
  case Nil then show ?case by simp
next
  case (Cons a xs)
  obtain m' r' where st: "link_step (m, r) a = (m', r')" by (cases "link_step (m, r) a")
  with link_step_keyed [OF Cons.prems, of r a] have "keyed m'" by simp
  from Cons.IH [OF this, of r'] st show ?case by simp
qed

lemma foldl_attach_keyed: "keyed m \<Longrightarrow> keyed (fst (foldl attach_step (m, sr) xs))"
proof (induction xs arbitrary: m sr)
  case Nil then show ?case by simp
next
  case (Cons a xs)
  obtain m' sr' where st: "attach_step (m, sr) a = (m', sr')" by (cases "attach_step (m, sr) a")
  with attach_step_keyed [OF Cons.prems, of sr a] have "keyed m'" by simp
  from Cons.IH [OF this, of sr'] st show ?case by simp
qed

lemma create_all_distinct: "distinct (map_keys (create_all flatNodes))"
  by (simp add: create_all_def distinct_fold_set)

lemma init_all_distinct: "distinct (map_keys (init_all flatNodes))"
  by (simp add: init_all_def distinct_fold_set)

lemma build_nodeMap:
  "buildTreeFromFlatList flatNodes = Inr d \<Longrightarrow>
   nodeMap d = fst (link_all (create_all flatNodes) flatNodes)"
  by (auto simp: buildTreeFromFlatList_def split: prod.splits option.splits list.splits)

lemma build_shape:
  assumes "buildTreeFromFlatList flatNodes = Inr d"
  shows "map_keys (nodeMap d) = map_keys (create_all flatNodes)" and "keyed (nodeMap d)"
proof -
  note nm = build_nodeMap [OF assms]
  show "map_keys (nodeMap d) = map_keys (create_all flatNodes)"
    using foldl_link_keys [of "create_all flatNodes" None flatNodes] nm by (simp add: link_all_def)
  show "keyed (nodeMap d)"
    using foldl_link_keyed [OF create_all_keyed, of flatNodes None flatNodes] nm
    by (simp add: link_all_def)
qed

lemma build_distinct_children:
  assumes "buildTreeFromFlatList flatNodes = Inr d" and "distinct (map raw_id flatNodes)"
  shows "distinct (all_children (nodeMap d))"
proof -
  have "distinct (all_children (create_all flatNodes))"
    and "\<forall>x \<in> set flatNodes. raw_id x \<notin> set (all_children (create_all flatNodes))"
    by (simp_all add: create_all_children)
  from foldl_link_distinct [OF this(1) assms(2) this(2), of None] build_nodeMap [OF assms(1)]
  show ?thesis by (simp add: link_all_def)
qed

lemma build_synthetic_shape:
  assumes "buildTreeFromFlatList_synthetic flatNodes = Inr d"
  shows "map_keys (syn_nodeMap d) = map_keys (init_all flatNodes)" and "keyed (syn_nodeMap d)"
proof -
  from build_synthetic_result [of flatNodes] assms
  have nm: "syn_nodeMap d = fst (attach_all (init_all flatNodes) flatNodes)"
    and k: "map_keys (syn_nodeMap d) = map_keys (init_all flatNodes)" by auto
  show "map_keys (syn_nodeMap d) = map_keys (init_all flatNodes)" by (rule k)
  show "keyed (syn_nodeMap d)"
    using foldl_attach_keyed [OF init_all_keyed, of flatNodes syntheticRoot flatNodes] nm
    by (simp add: attach_all_def)
qed

lemma build_synthetic_distinct:
  assumes b: "buildTreeFromFlatList_synthetic flatNodes = Inr d"
    and dist: "distinct (map safeId flatNodes)"
  shows "distinct (all_children (syn_nodeMap d))"
    and "distinct (obj_children (syn_root d))"
    and "(\<exists>raw \<in> set flatNodes. top_level (map safeId flatNodes) raw) \<Longrightarrow>
         distinct (obj_children (syn_root d) @ all_children (syn_nodeMap d))"
proof -
  obtain m sr where st: "attach_all (init_all flatNodes) flatNodes = (m, sr)"
    by (cases "attach_all (init_all flatNodes) flatNodes")
  have 0: "distinct (obj_children syntheticRoot @ all_children (init_all flatNodes))"
    and 1: "\<forall>x \<in> set flatNodes. safeId x \<notin> set (obj_children syntheticRoot @ all_children (init_all flatNodes))"
    by (simp_all add: init_all_children syntheticRoot_def)
  from foldl_attach_distinct [OF 0 dist 1] st
  have inv: "distinct (obj_children sr @ all_children m)" by (simp add: attach_all_def)
  from b st have m: "syn_nodeMap d = m"
    and r: "syn_root d = (if obj_children sr = [] \<and> m \<noteq> [] then sr\<lparr>obj_children := map_keys m\<rparr> else sr)"
    by (auto simp: buildTreeFromFlatList_synthetic_def)
  from build_synthetic_shape(1) [OF b] m have keys: "map_keys m = map_keys (init_all flatNodes)" by simp
  show "distinct (all_children (syn_nodeMap d))" using inv m by simp
  show "distinct (obj_children (syn_root d))"
    using inv r keys init_all_distinct [of flatNodes] by (simp split: if_splits)
  assume "\<exists>raw \<in> set flatNodes. top_level (map safeId flatNodes) raw"
  then obtain raw where raw: "raw \<in> set flatNodes" and top: "top_level (map safeId flatNodes) raw"
    by blast
  have ks: "set (map_keys (init_all flatNodes)) = set (map safeId flatNodes)"
    by (simp add: init_all_keys)
  have t: "top_level (map_keys (init_all flatNodes)) raw"
    using top unfolding top_level_def ks .
  have "safeId raw \<in> set (map_keys (init_all flatNodes))" using raw ks by simp
  from foldl_attach_top [OF raw this t, of syntheticRoot] st
  have "obj_children sr \<noteq> []" by (auto simp: attach_all_def)
  with r have "syn_root d = sr" by simp
  with inv m show "distinct (obj_children (syn_root d) @ all_children (syn_nodeMap d))" by simp
qed

subsection \<open>The builders on concrete inputs\<close>

lemmas build_defs =
  buildTreeFromFlatList_def link_all_def create_all_def link_step_def create_node_def pId_of_def
  js_or_def pageNumber_of_def raw_node_def

lemmas build_synthetic_defs =
  buildTreeFromFlatList_synthetic_def attach_all_def init_all_def attach_step_def init_node_def
  clean_parentId_def safeId_def js_or_def pageNumber_of_def raw_node_def map_has_def map_keys_def
  syntheticRoot_def

lemma orphan_eval:
  "buildTreeFromFlatList orphan_input =
     Inr \<lparr>root = JStr ''b'',
          nodeMap = [(JStr ''a'', create_node (raw_node (JStr ''a'') (JStr ''x''))),
                     (JStr ''b'', create_node (raw_node (JStr ''b'') JNull))],
          markdownSummary = '''', researchReport = ''''\<rparr>"
  by (simp add: orphan_input_def build_defs)

text \<open>
  The builder with the synthetic root keeps the record with the dangling reference, as it
  keeps every top-level record of any input (lemma \<open>dangling_attached\<close>).
\<close>

lemma orphan_kept_synthetic:
  "(case buildTreeFromFlatList_synthetic orphan_input of
      Inl e \<Rightarrow> False
    | Inr d \<Rightarrow> obj_children (syn_root d) = [''a'', ''b''])"
  by (simp add: orphan_input_def build_synthetic_defs)

text \<open>
  The builder of \<^verbatim>\<open>geminiService.ts\<close> fails exactly on the empty list, and the other one
  never fails.
\<close>

lemma build_fails_iff_empty: "(buildTreeFromFlatList flatNodes = Inl EmptyMindMap) = (flatNodes = [])"
proof (cases "flatNodes = []")
  case True
  then show ?thesis by (simp add: build_empty)
next
  case False
  from build_nonempty [OF False] obtain d where "buildTreeFromFlatList flatNodes = Inr d" by blast
  with False show ?thesis by simp
qed

lemma build_synthetic_never_fails: "buildTreeFromFlatList_synthetic flatNodes \<noteq> Inl e"
  using build_synthetic_result [of flatNodes] by auto

lemma intro_record_built:
  "(case buildTreeFromFlatList [intro_record] of
      Inl e \<Rightarrow> False
    | Inr d \<Rightarrow> root d = JStr ''1'' \<and> map_keys (nodeMap d) = [JStr ''1''] \<and> child_links (nodeMap d) = [])"
  by (simp add: intro_record_def build_defs map_keys_def)

text \<open>\<^verbatim>\<open>String(1)\<close> and \<^verbatim>\<open>String(2)\<close>, the keys of the numeric input after coercion.\<close>

lemma Number_toString_small:
  "Number_toString 1 = ''1''" "Number_toString 2 = ''2''"
  by code_simp+

text \<open>\<^verbatim>\<open>String\<close> on Numbers below and above \<open>2\<^sup>5\<^sup>3\<close> and \<open>10\<^sup>2\<^sup>1\<close>.\<close>

lemma String_js_examples:
  "String_js (JNum 7) = ''7''"
  "String_js (JNum (- 12)) = ''-12''"
  "String_js (JNum (2 ^ 60)) = ''1152921504606847000''"
  "String_js (JNum (10 ^ 21)) = ''1e+21''"
  by code_simp+

lemma first_root_in: "flatNodes \<noteq> [] \<Longrightarrow> first_root flatNodes \<in> raw_id ` set flatNodes"
  by (auto simp: first_root_def find_Some_iff split: option.splits)

lemma chain_declared: "declared_links chain_input = [(JStr ''r'', JStr ''c'')]"
  by (simp add: chain_input_def declared_links_def pId_of_def raw_node_def)

lemma chain_declared_syn: "declared_links_syn chain_input = [(''r'', ''c'')]"
  by (simp add: chain_input_def declared_links_syn_def clean_parentId_def safeId_def raw_node_def)

lemma single_link_acyclic: "a \<noteq> b \<Longrightarrow> \<not> own_ancestor [(a, b)] j"
  by (simp add: own_ancestor_def trancl_insert)

lemma chain_build:
  "buildTreeFromFlatList chain_input =
     Inr \<lparr>root = JStr ''r'',
          nodeMap = [(JStr ''r'', (create_node (raw_node (JStr ''r'') JNull))\<lparr>obj_children := [JStr ''c'']\<rparr>),
                     (JStr ''c'', create_node (raw_node (JStr ''c'') (JStr ''r'')))],
          markdownSummary = '''', researchReport = ''''\<rparr>"
  by (simp add: chain_input_def build_defs)

lemma chain_build_synthetic:
  "buildTreeFromFlatList_synthetic chain_input =
     Inr \<lparr>syn_root = syntheticRoot\<lparr>obj_children := [''r'']\<rparr>,
          syn_nodeMap = [(''r'', (init_node (raw_node (JStr ''r'') JNull))\<lparr>obj_children := [''c'']\<rparr>),
                         (''c'', init_node (raw_node (JStr ''c'') (JStr ''r'')))],
          syn_markdownSummary = '''', syn_researchReport = ''''\<rparr>"
  by (simp add: chain_input_def build_synthetic_defs)

lemma keyed_ids: "keyed m \<Longrightarrow> map (obj_id \<circ> snd) m = map_keys m"
proof (induction m)
  case Nil
  then show ?case by simp
next
  case (Cons x m)
  obtain k n where x: "x = (k, n)" by (cases x)
  with Cons show ?case by (simp add: map_keys_def)
qed

subsection \<open>What the two builders agree on\<close>

lemma null_like_top_level:
  assumes "raw_parentId raw = JUndefined \<or> raw_parentId raw = JNull
           \<or> raw_parentId raw = JStr [] \<or> raw_parentId raw = JStr ''null''"
  shows "\<not> truthy (pId_of raw)" and "top_level keys raw"
  using assms by (auto simp: pId_of_def top_level_def clean_parentId_def)

lemma links_have_truthy_parent:
  "buildTreeFromFlatList flatNodes = Inr d \<Longrightarrow> (p, c) \<in> set (child_links (nodeMap d)) \<Longrightarrow> truthy p"
  using build_links [of flatNodes d] by (auto simp: declared_links_def)

lemma synthetic_links_have_named_parent:
  "buildTreeFromFlatList_synthetic flatNodes = Inr d \<Longrightarrow>
   (p, c) \<in> set (child_links (syn_nodeMap d)) \<Longrightarrow> p \<noteq> []"
  using build_synthetic_links [of flatNodes d]
  by (auto simp: declared_links_syn_def split: option.splits if_splits)

lemma synthetic_keys_are_strings:
  "buildTreeFromFlatList_synthetic flatNodes = Inr d \<Longrightarrow>
   set (map_keys (syn_nodeMap d)) = (\<lambda>raw. String_js (raw_id raw)) ` set flatNodes"
  using build_synthetic_shape(1) [of flatNodes d] init_all_keys [of flatNodes]
  by (simp add: safeId_def)

section \<open>The claims about the reconstruction\<close>

text \<open>
  C1. For every non-empty input both builders return a tree with one designated root. The
  first builder designates an object of the map: the one of the first root candidate, or of
  the first record when no record is a root candidate. The other builder designates the
  synthetic root, whatever the input.
\<close>

theorem single_root:
  assumes "flatNodes \<noteq> []"
  shows "(\<exists>d. buildTreeFromFlatList flatNodes = Inr d \<and> root d = first_root flatNodes
              \<and> map_has (nodeMap d) (root d))
       \<and> (\<exists>d. buildTreeFromFlatList_synthetic flatNodes = Inr d
              \<and> syn_root d\<lparr>obj_children := []\<rparr> = syntheticRoot)"
proof
  from build_nonempty [OF assms] obtain d where d: "buildTreeFromFlatList flatNodes = Inr d"
    and r: "root d = first_root flatNodes"
    and k: "map_keys (nodeMap d) = map_keys (create_all flatNodes)" by blast
  from first_root_in [OF assms] r k have "root d \<in> set (map_keys (nodeMap d))"
    by (simp add: create_all_keys)
  then have "map_has (nodeMap d) (root d)" by (simp add: map_has_keys)
  with d r show "\<exists>d. buildTreeFromFlatList flatNodes = Inr d \<and> root d = first_root flatNodes
              \<and> map_has (nodeMap d) (root d)" by blast
next
  from build_synthetic_result [of flatNodes]
  show "\<exists>d. buildTreeFromFlatList_synthetic flatNodes = Inr d
              \<and> syn_root d\<lparr>obj_children := []\<rparr> = syntheticRoot" by blast
qed

text \<open>C1 on the one-record input \<^verbatim>\<open>[{id: "1", parentId: null, label: "Intro"}]\<close>.\<close>

theorem single_root_witness:
  "[intro_record] \<noteq> []
   \<and> (\<exists>d. buildTreeFromFlatList [intro_record] = Inr d \<and> root d = JStr ''1''
           \<and> map_has (nodeMap d) (root d))
   \<and> (\<exists>d. buildTreeFromFlatList_synthetic [intro_record] = Inr d
           \<and> syn_root d\<lparr>obj_children := []\<rparr> = syntheticRoot)"
proof -
  have f: "first_root [intro_record] = JStr ''1''"
    by (simp add: first_root_def intro_record_def pId_of_def)
  have ne: "[intro_record] \<noteq> []" by simp
  from single_root [OF ne] f ne show ?thesis by simp
qed

text \<open>
  C6. Reconstruction should fail with the empty-result error on the empty list. The builder
  with the synthetic root returns on \<^verbatim>\<open>[]\<close>: the tree is the synthetic root alone. The
  builder of \<^verbatim>\<open>geminiService.ts\<close> does fail there, and only there (lemma
  \<open>build_fails_iff_empty\<close>).
\<close>

theorem empty_input_synthetic:
  "buildTreeFromFlatList_synthetic [] =
     Inr \<lparr>syn_root = syntheticRoot, syn_nodeMap = [], syn_markdownSummary = '''',
          syn_researchReport = ''''\<rparr>"
  by (simp add: buildTreeFromFlatList_synthetic_def attach_all_def init_all_def)

text \<open>
  C7. A record whose \<^verbatim>\<open>parentId\<close> names an id that no record has should be kept as a
  top-level node. The builder of \<^verbatim>\<open>geminiService.ts\<close> run on
  \<^verbatim>\<open>[{id: "a", parentId: "x"}, {id: "b", parentId: null}]\<close> returns the root \<open>b\<close> with
  no link at all: \<open>a\<close> is an object of the map that is not reachable from the root. The
  builder with the synthetic root keeps it (lemmas \<open>orphan_kept_synthetic\<close>,
  \<open>dangling_attached\<close>).
\<close>

theorem orphan_dropped:
  "(case buildTreeFromFlatList orphan_input of
      Inl e \<Rightarrow> False
    | Inr d \<Rightarrow> root d = JStr ''b'' \<and> map_keys (nodeMap d) = [JStr ''a'', JStr ''b'']
               \<and> child_links (nodeMap d) = []
               \<and> \<not> reachable (child_links (nodeMap d)) (root d) (JStr ''a''))"
  by (simp add: orphan_eval reachable_def map_keys_def create_node_def)

text \<open>
  C8. Every id should become a string key. The builder of \<^verbatim>\<open>geminiService.ts\<close> run on
  \<^verbatim>\<open>[{id: 1, parentId: null}, {id: 2, parentId: "1"}]\<close> keeps the numbers \<open>1\<close> and \<open>2\<close>
  as keys, so the reference \<^verbatim>\<open>"1"\<close> finds no parent and no link is made; the builder with
  the synthetic root, which calls \<^verbatim>\<open>String(raw.id)\<close>, has the keys \<^verbatim>\<open>"1"\<close> and \<^verbatim>\<open>"2"\<close>
  and the link between them.
\<close>

theorem numeric_id_not_coerced:
  "(case buildTreeFromFlatList numeric_input of
      Inl e \<Rightarrow> False
    | Inr d \<Rightarrow> map_keys (nodeMap d) = [JNum 1, JNum 2] \<and> child_links (nodeMap d) = [])
   \<and> (case buildTreeFromFlatList_synthetic numeric_input of
      Inl e \<Rightarrow> False
    | Inr d \<Rightarrow> map_keys (syn_nodeMap d) = [''1'', ''2''] \<and> child_links (syn_nodeMap d) = [(''1'', ''2'')])"
  by (simp add: numeric_input_def build_defs build_synthetic_defs Number_toString_small)

text \<open>
  C9, as stated, fails: on \<^verbatim>\<open>[{id: "a", parentId: "a"}]\<close> both builders push the object
  \<open>a\<close> into its own \<^verbatim>\<open>children\<close>, so \<open>a\<close> is its own ancestor (and, for the first
  builder, the root).
\<close>

theorem self_parent_cycle:
  "(case buildTreeFromFlatList self_parent_input of
      Inl e \<Rightarrow> False
    | Inr d \<Rightarrow> root d = JStr ''a'' \<and> own_ancestor (child_links (nodeMap d)) (root d))
   \<and> (case buildTreeFromFlatList_synthetic self_parent_input of
      Inl e \<Rightarrow> False
    | Inr d \<Rightarrow> obj_children (syn_root d) = [''a''] \<and> own_ancestor (syn_links d) (Some ''a''))"
  by (simp add: self_parent_input_def build_defs build_synthetic_defs own_ancestor_def syn_links_def)
     (rule r_into_trancl, simp)

text \<open>
  C9, amended. When the parent references declared by the input, as the builder reads them,
  contain no cycle, no node of the reconstructed tree is its own ancestor: the builders only
  make links that a record declares, and no link leads to the synthetic root.
\<close>

theorem no_cycle_unless_declared:
  "(buildTreeFromFlatList flatNodes = Inr d \<and> (\<forall>j. \<not> own_ancestor (declared_links flatNodes) j)
      \<longrightarrow> \<not> own_ancestor (child_links (nodeMap d)) k)
   \<and> (buildTreeFromFlatList_synthetic flatNodes = Inr d' \<and> (\<forall>j. \<not> own_ancestor (declared_links_syn flatNodes) j)
      \<longrightarrow> \<not> own_ancestor (syn_links d') k')"
proof (intro conjI impI)
  assume a: "buildTreeFromFlatList flatNodes = Inr d \<and> (\<forall>j. \<not> own_ancestor (declared_links flatNodes) j)"
  then have "\<not> own_ancestor (declared_links flatNodes) k" by simp
  with own_ancestor_mono [OF build_links, of flatNodes d k] a
  show "\<not> own_ancestor (child_links (nodeMap d)) k" by blast
next
  assume a: "buildTreeFromFlatList_synthetic flatNodes = Inr d' \<and> (\<forall>j. \<not> own_ancestor (declared_links_syn flatNodes) j)"
  show "\<not> own_ancestor (syn_links d') k'"
  proof
    assume "own_ancestor (syn_links d') k'"
    from syn_own_ancestor [OF this] obtain j where "own_ancestor (child_links (syn_nodeMap d')) j"
      by blast
    with own_ancestor_mono [OF build_synthetic_links, of flatNodes d' j] a show False by blast
  qed
qed

text \<open>The amended C9 on \<^verbatim>\<open>[{id: "r", parentId: null}, {id: "c", parentId: "r"}]\<close>.\<close>

theorem no_cycle_unless_declared_witness:
  "(\<forall>j. \<not> own_ancestor (declared_links chain_input) j)
   \<and> (\<forall>j. \<not> own_ancestor (declared_links_syn chain_input) j)
   \<and> \<not> isl (buildTreeFromFlatList chain_input)
   \<and> \<not> isl (buildTreeFromFlatList_synthetic chain_input)
   \<and> child_links (nodeMap (projr (buildTreeFromFlatList chain_input))) = [(JStr ''r'', JStr ''c'')]
   \<and> \<not> own_ancestor (child_links (nodeMap (projr (buildTreeFromFlatList chain_input)))) (JStr ''c'')
   \<and> \<not> own_ancestor (syn_links (projr (buildTreeFromFlatList_synthetic chain_input))) (Some ''c'')"
proof -
  have 1: "\<forall>j. \<not> own_ancestor (declared_links chain_input) j"
    by (simp add: chain_declared single_link_acyclic)
  have 2: "\<forall>j. \<not> own_ancestor (declared_links_syn chain_input) j"
    by (simp add: chain_declared_syn single_link_acyclic)
  obtain d where d: "buildTreeFromFlatList chain_input = Inr d" using chain_build by simp
  obtain d' where d': "buildTreeFromFlatList_synthetic chain_input = Inr d'"
    using chain_build_synthetic by simp
  from d chain_build have l: "child_links (nodeMap d) = [(JStr ''r'', JStr ''c'')]"
    by (auto simp: create_node_def)
  from no_cycle_unless_declared [of chain_input d "JStr ''c''" d' "Some ''c''"] 1 2 d d'
  have "\<not> own_ancestor (child_links (nodeMap d)) (JStr ''c'') \<and> \<not> own_ancestor (syn_links d') (Some ''c'')"
    by simp
  with 1 2 l d d' show ?thesis by simp
qed

text \<open>
  C10, as stated, fails. Two records with the id \<open>a\<close> under the parent \<open>r\<close> make both
  builders list the object \<open>a\<close> twice in the \<^verbatim>\<open>children\<close> of \<open>r\<close>. With distinct ids, on
  \<^verbatim>\<open>[{id: "a", parentId: "b"}, {id: "b", parentId: "a"}]\<close> the fallback of the builder with
  the synthetic root lists \<open>a\<close> and \<open>b\<close> under the root although each is already the
  child of the other. A record with the id \<^verbatim>\<open>"root-synthetic"\<close> shares its id with the
  synthetic root.
\<close>

theorem duplicate_id_listed_twice:
  "(case buildTreeFromFlatList duplicate_input of
      Inl e \<Rightarrow> False
    | Inr d \<Rightarrow> all_children (nodeMap d) = [JStr ''a'', JStr ''a''])
   \<and> (case buildTreeFromFlatList_synthetic duplicate_input of
      Inl e \<Rightarrow> False
    | Inr d \<Rightarrow> all_children (syn_nodeMap d) = [''a'', ''a''])
   \<and> (case buildTreeFromFlatList_synthetic loop_input of
      Inl e \<Rightarrow> False
    | Inr d \<Rightarrow> obj_children (syn_root d) = [''a'', ''b''] \<and> all_children (syn_nodeMap d) = [''b'', ''a''])
   \<and> (case buildTreeFromFlatList_synthetic clash_input of
      Inl e \<Rightarrow> False
    | Inr d \<Rightarrow> obj_id (syn_root d) = ''root-synthetic'' \<and> map (obj_id \<circ> snd) (syn_nodeMap d) = [''root-synthetic''])"
  by (simp add: duplicate_input_def loop_input_def clash_input_def build_defs build_synthetic_defs)

text \<open>
  C10, amended. When the records have pairwise distinct keys, no object is listed twice over
  all the \<^verbatim>\<open>children\<close> arrays of the objects built from records, the objects built from
  records have pairwise distinct ids, and the \<^verbatim>\<open>children\<close> of the synthetic root holds no
  object twice; when moreover some record is top-level, no object is listed both under the
  synthetic root and under another object.
\<close>

theorem children_listed_once:
  "(buildTreeFromFlatList flatNodes = Inr d \<and> distinct (map raw_id flatNodes) \<longrightarrow>
      distinct (all_children (nodeMap d)) \<and> distinct (map (obj_id \<circ> snd) (nodeMap d)))
   \<and> (buildTreeFromFlatList_synthetic flatNodes = Inr d' \<and> distinct (map safeId flatNodes) \<longrightarrow>
      distinct (all_children (syn_nodeMap d')) \<and> distinct (obj_children (syn_root d'))
      \<and> distinct (map (obj_id \<circ> snd) (syn_nodeMap d'))
      \<and> (list_ex (top_level (map safeId flatNodes)) flatNodes \<longrightarrow>
           distinct (obj_children (syn_root d') @ all_children (syn_nodeMap d'))))"
proof (intro conjI impI)
  assume a: "buildTreeFromFlatList flatNodes = Inr d \<and> distinct (map raw_id flatNodes)"
  then have b: "buildTreeFromFlatList flatNodes = Inr d" and dist: "distinct (map raw_id flatNodes)"
    by simp_all
  show "distinct (all_children (nodeMap d))" by (rule build_distinct_children [OF b dist])
  from build_shape [OF b] create_all_distinct [of flatNodes]
  show "distinct (map (obj_id \<circ> snd) (nodeMap d))" by (simp add: keyed_ids)
next
  assume a: "buildTreeFromFlatList_synthetic flatNodes = Inr d' \<and> distinct (map safeId flatNodes)"
  then have b: "buildTreeFromFlatList_synthetic flatNodes = Inr d'"
    and dist: "distinct (map safeId flatNodes)" by simp_all
  show "distinct (all_children (syn_nodeMap d'))" by (rule build_synthetic_distinct(1) [OF b dist])
  show "distinct (obj_children (syn_root d'))" by (rule build_synthetic_distinct(2) [OF b dist])
  from build_synthetic_shape [OF b] init_all_distinct [of flatNodes]
  show "distinct (map (obj_id \<circ> snd) (syn_nodeMap d'))" by (simp add: keyed_ids)
  assume "list_ex (top_level (map safeId flatNodes)) flatNodes"
  then have "\<exists>raw \<in> set flatNodes. top_level (map safeId flatNodes) raw" by (simp add: list_ex_iff)
  from build_synthetic_distinct(3) [OF b dist this]
  show "distinct (obj_children (syn_root d') @ all_children (syn_nodeMap d'))" .
qed

text \<open>The amended C10 on \<^verbatim>\<open>[{id: "r", parentId: null}, {id: "c", parentId: "r"}]\<close>.\<close>

theorem children_listed_once_witness:
  "distinct (map raw_id chain_input) \<and> distinct (map safeId chain_input)
   \<and> list_ex (top_level (map safeId chain_input)) chain_input
   \<and> \<not> isl (buildTreeFromFlatList chain_input)
   \<and> \<not> isl (buildTreeFromFlatList_synthetic chain_input)
   \<and> all_children (nodeMap (projr (buildTreeFromFlatList chain_input))) = [JStr ''c'']
   \<and> distinct (all_children (nodeMap (projr (buildTreeFromFlatList chain_input))))
   \<and> distinct (map (obj_id \<circ> snd) (nodeMap (projr (buildTreeFromFlatList chain_input))))
   \<and> distinct (obj_children (syn_root (projr (buildTreeFromFlatList_synthetic chain_input)))
                @ all_children (syn_nodeMap (projr (buildTreeFromFlatList_synthetic chain_input))))
   \<and> distinct (map (obj_id \<circ> snd) (syn_nodeMap (projr (buildTreeFromFlatList_synthetic chain_input))))"
proof -
  obtain d where d: "buildTreeFromFlatList chain_input = Inr d" using chain_build by simp
  obtain d' where d': "buildTreeFromFlatList_synthetic chain_input = Inr d'"
    using chain_build_synthetic by simp
  have 1: "distinct (map raw_id chain_input)" by (simp add: chain_input_def raw_node_def)
  have 2: "distinct (map safeId chain_input)" by (simp add: chain_input_def raw_node_def safeId_def)
  have 3: "list_ex (top_level (map safeId chain_input)) chain_input"
    by (simp add: chain_input_def raw_node_def top_level_def clean_parentId_def)
  from d chain_build have l: "all_children (nodeMap d) = [JStr ''c'']"
    by (auto simp: create_node_def raw_node_def)
  from children_listed_once [of chain_input d d'] 1 2 3 d d' l
  show ?thesis by simp
qed

section \<open>Properties of the layout\<close>

lemma js_add_Some [simp]: "js_add (Some a) (Some b) = Some (a + b)"
  by (simp add: js_add_def)

lemma js_sub_Some [simp]: "js_sub (Some a) (Some b) = Some (a - b)"
  by (simp add: js_sub_def)

lemma js_half_Some [simp]: "js_half (Some a) = Some (a / 2)"
  by (simp add: js_half_def)

lemma js_max_Some [simp]: "js_max (Some a) (Some b) = Some (max a b)"
  by (simp add: js_max_def)

lemma or_zero_Some [simp]: "or_zero (Some a) = a"
  by (simp add: or_zero_def)

subsection \<open>The metric pass\<close>

text \<open>
  The loop over the children adds every footprint and one spacing after each child but the
  last.
\<close>

lemma spaced_loop:
  "list_all (\<lambda>c. fp c \<noteq> None) xs \<Longrightarrow> k + length xs = N \<Longrightarrow>
   foldl (\<lambda>total (child, index).
            (if int index < int N - 1
             then js_add (js_add total (fp child)) (Some sp)
             else js_add total (fp child)))
     (Some a) (zip xs [k..<N])
   = Some (a + sum_list (map (\<lambda>c. or_zero (fp c)) xs) + (of_nat (length xs) - (if xs = [] then 0 else 1)) * sp)"
proof (induction xs arbitrary: a k)
  case Nil
  then show ?case by simp
next
  case (Cons x xs)
  from Cons.prems obtain w where w: "fp x = Some w" by auto
  from Cons.prems have kN: "k < N" and nx: "Suc k + length xs = N" by simp_all
  from kN have upt: "[k..<N] = k # [Suc k..<N]" by (simp add: upt_conv_Cons)
  from Cons.prems have all: "list_all (\<lambda>c. fp c \<noteq> None) xs" by simp
  show ?case
  proof (cases "xs = []")
    case True
    with nx have "int k = int N - 1" by simp
    with True w upt show ?thesis by simp
  next
    case False
    with nx have "int k < int N - 1" by (cases xs) auto
    with w upt Cons.IH [OF all nx, of "a + w + sp"] False show ?thesis
      by (simp add: algebra_simps)
  qed
qed

lemma totalWidth_loop_sum:
  "list_all (\<lambda>c. width c \<noteq> None) cs \<Longrightarrow> cs \<noteq> [] \<Longrightarrow>
   totalWidth_loop cs = Some (sum_list (map (\<lambda>c. or_zero (width c)) cs) + (of_nat (length cs) - 1) * X_SPACING)"
  unfolding totalWidth_loop_def
  using spaced_loop [of width cs 0 "length cs" X_SPACING 0] by simp

lemma totalHeight_loop_sum:
  "list_all (\<lambda>c. height c \<noteq> None) cs \<Longrightarrow> cs \<noteq> [] \<Longrightarrow>
   totalHeight_loop cs = Some (sum_list (map (\<lambda>c. or_zero (height c)) cs) + (of_nat (length cs) - 1) * NODE_SPACING)"
  unfolding totalHeight_loop_def
  using spaced_loop [of height cs 0 "length cs" NODE_SPACING 0] by simp

lemma root_in_preorder: "t \<in> set (preorder t)"
  by (cases t) simp

lemma footprint_ok_Some: "footprint_ok B S fp n \<Longrightarrow> fp n \<noteq> None"
  by (auto simp: footprint_ok_def split: if_splits)

lemma children_calculateSubtreeSize:
  "children (calculateSubtreeSize t) = map calculateSubtreeSize (children t)"
  by (cases t) (simp add: Let_def)

lemma children_calculateSubtreeHeight:
  "children (calculateSubtreeHeight t) = map calculateSubtreeHeight (children t)"
  by (cases t) (simp add: Let_def)

lemma size_footprints:
  "\<forall>n \<in> set (preorder (calculateSubtreeSize t)). footprint_ok NODE_WIDTH X_SPACING width n"
proof (induction t)
  case (MindMapNode i l s q p cs w h)
  let ?cs' = "map calculateSubtreeSize cs"
  have sub: "\<forall>c \<in> set cs. \<forall>n \<in> set (preorder (calculateSubtreeSize c)). footprint_ok NODE_WIDTH X_SPACING width n"
    using MindMapNode.IH by blast
  show ?case
  proof (cases "cs = []")
    case True
    then show ?thesis by (simp add: footprint_ok_def)
  next
    case False
    have all: "list_all (\<lambda>c. width c \<noteq> None) ?cs'"
      using sub root_in_preorder footprint_ok_Some by (fastforce simp: list_all_iff)
    have ne: "?cs' \<noteq> []" using False by simp
    have root: "footprint_ok NODE_WIDTH X_SPACING width
                  (MindMapNode i l s q p ?cs' (js_max (Some NODE_WIDTH) (totalWidth_loop ?cs')) h)"
      using False all by (simp add: footprint_ok_def totalWidth_loop_sum [OF all ne])
    from False root sub show ?thesis by (auto simp: Let_def)
  qed
qed

lemma height_footprints:
  "\<forall>n \<in> set (preorder (calculateSubtreeHeight t)). footprint_ok LR_NODE_HEIGHT NODE_SPACING height n"
proof (induction t)
  case (MindMapNode i l s q p cs w h)
  let ?cs' = "map calculateSubtreeHeight cs"
  have sub: "\<forall>c \<in> set cs. \<forall>n \<in> set (preorder (calculateSubtreeHeight c)). footprint_ok LR_NODE_HEIGHT NODE_SPACING height n"
    using MindMapNode.IH by blast
  show ?case
  proof (cases "cs = []")
    case True
    then show ?thesis by (simp add: footprint_ok_def)
  next
    case False
    have all: "list_all (\<lambda>c. height c \<noteq> None) ?cs'"
      using sub root_in_preorder footprint_ok_Some by (fastforce simp: list_all_iff)
    have ne: "?cs' \<noteq> []" using False by simp
    have root: "footprint_ok LR_NODE_HEIGHT NODE_SPACING height
                  (MindMapNode i l s q p ?cs' w (js_max (Some LR_NODE_HEIGHT) (totalHeight_loop ?cs')))"
      using False all by (simp add: footprint_ok_def totalHeight_loop_sum [OF all ne])
    from False root sub show ?thesis by (auto simp: Let_def)
  qed
qed

lemma scenario_heights:
  "map height (preorder (calculateSubtreeHeight scenario_tree))
     = [Some 468, Some 304, Some 140, Some 140, Some 140]"
  by (simp add: scenario_tree_def branch_def leaf_def Let_def totalHeight_loop_def
        LR_NODE_HEIGHT_def NODE_SPACING_def)

text \<open>
  The metric pass against the footprint of the specification: it writes that footprint, computed
  on the given tree, into every node and changes nothing else.
\<close>

lemma with_widths_sel:
  "width (with_widths f t) = f t" "node_id (with_widths f t) = node_id t"
  "children (with_widths f t) = map (with_widths f) (children t)"
  by (cases t; simp)+

lemma with_heights_sel:
  "height (with_heights f t) = f t" "node_id (with_heights f t) = node_id t"
  "children (with_heights f t) = map (with_heights f) (children t)"
  by (cases t; simp)+

lemma subtree_at_with_widths:
  "subtree_at (with_widths f t) path = map_option (with_widths f) (subtree_at t path)"
  by (induction path arbitrary: t) (simp_all add: with_widths_sel)

lemma subtree_at_with_heights:
  "subtree_at (with_heights f t) path = map_option (with_heights f) (subtree_at t path)"
  by (induction path arbitrary: t) (simp_all add: with_heights_sel)

lemma calculateSubtreeSize_spec:
  "calculateSubtreeSize t = with_widths (\<lambda>n. Some (spec_footprint NODE_WIDTH X_SPACING n)) t"
proof (induction t)
  case (MindMapNode i l s q p cs w h)
  let ?F = "\<lambda>n. Some (spec_footprint NODE_WIDTH X_SPACING n)"
  have cs': "map calculateSubtreeSize cs = map (with_widths ?F) cs"
    using MindMapNode.IH by simp
  show ?case
  proof (cases "cs = []")
    case True
    then show ?thesis by simp
  next
    case False
    have all: "list_all (\<lambda>c. width c \<noteq> None) (map (with_widths ?F) cs)"
      by (simp add: list_all_iff with_widths_sel)
    have ne: "map (with_widths ?F) cs \<noteq> []" using False by simp
    have "totalWidth_loop (map calculateSubtreeSize cs)
            = Some (sum_list (map (spec_footprint NODE_WIDTH X_SPACING) cs)
                    + (of_nat (length cs) - 1) * X_SPACING)"
      unfolding cs' using totalWidth_loop_sum [OF all ne] by (simp add: comp_def with_widths_sel)
    with False cs' show ?thesis by (simp add: Let_def)
  qed
qed

lemma calculateSubtreeHeight_spec:
  "calculateSubtreeHeight t = with_heights (\<lambda>n. Some (spec_footprint LR_NODE_HEIGHT NODE_SPACING n)) t"
proof (induction t)
  case (MindMapNode i l s q p cs w h)
  let ?F = "\<lambda>n. Some (spec_footprint LR_NODE_HEIGHT NODE_SPACING n)"
  have cs': "map calculateSubtreeHeight cs = map (with_heights ?F) cs"
    using MindMapNode.IH by simp
  show ?case
  proof (cases "cs = []")
    case True
    then show ?thesis by simp
  next
    case False
    have all: "list_all (\<lambda>c. height c \<noteq> None) (map (with_heights ?F) cs)"
      by (simp add: list_all_iff with_heights_sel)
    have ne: "map (with_heights ?F) cs \<noteq> []" using False by simp
    have "totalHeight_loop (map calculateSubtreeHeight cs)
            = Some (sum_list (map (spec_footprint LR_NODE_HEIGHT NODE_SPACING) cs)
                    + (of_nat (length cs) - 1) * NODE_SPACING)"
      unfolding cs' using totalHeight_loop_sum [OF all ne] by (simp add: comp_def with_heights_sel)
    with False cs' show ?thesis by (simp add: Let_def)
  qed
qed

lemma measured_size:
  "map_option (\<lambda>n. (node_id n, length (children n), width n)) (subtree_at (calculateSubtreeSize t) path)
     = map_option (\<lambda>n. (node_id n, length (children n), Some (spec_footprint NODE_WIDTH X_SPACING n)))
         (subtree_at t path)"
  by (simp add: calculateSubtreeSize_spec subtree_at_with_widths option.map_comp comp_def
        with_widths_sel)

lemma measured_height:
  "map_option (\<lambda>n. (node_id n, length (children n), height n)) (subtree_at (calculateSubtreeHeight t) path)
     = map_option (\<lambda>n. (node_id n, length (children n), Some (spec_footprint LR_NODE_HEIGHT NODE_SPACING n)))
         (subtree_at t path)"
  by (simp add: calculateSubtreeHeight_spec subtree_at_with_heights option.map_comp comp_def
        with_heights_sel)

lemma scenario_spec_footprints:
  "map (spec_footprint 140 24) (preorder scenario_tree) = [468, 304, 140, 140, 140]"
  by (simp add: scenario_tree_def branch_def leaf_def)

lemma push_edge_append: "push_edge es pid n opts = es @ push_edge [] pid n opts"
  by (simp add: push_edge_def split: option.splits)

subsection \<open>The top-down assigner appends\<close>

lemma assignChildren_appends_aux:
  assumes "\<forall>c \<in> set cs. \<forall>x y pid. \<exists>N E. \<forall>ns es.
             assignPositions c x y ns es opts pid = (ns @ N, es @ E)"
  shows "\<exists>N E. \<forall>ns es. assignChildren cs cx y ns es opts pid = (ns @ N, es @ E)"
  using assms
proof (induction cs arbitrary: cx)
  case Nil
  have "\<forall>ns es. assignChildren [] cx y ns es opts pid = (ns @ [], es @ [])" by simp
  then show ?case by blast
next
  case (Cons c cs)
  let ?cx = "js_add cx (js_add (width c) (Some X_SPACING))"
  from Cons.prems obtain N1 E1
    where c: "\<forall>ns es. assignPositions c cx y ns es opts (Some pid) = (ns @ N1, es @ E1)"
    by (meson list.set_intros(1))
  from Cons.prems have "\<forall>c \<in> set cs. \<forall>x y pid. \<exists>N E. \<forall>ns es.
             assignPositions c x y ns es opts pid = (ns @ N, es @ E)" by simp
  from Cons.IH [OF this, of ?cx] obtain N2 E2
    where r: "\<forall>ns es. assignChildren cs ?cx y ns es opts pid = (ns @ N2, es @ E2)" by blast
  have "\<forall>ns es. assignChildren (c # cs) cx y ns es opts pid = (ns @ (N1 @ N2), es @ (E1 @ E2))"
    by (simp add: c r)
  then show ?case by blast
qed

lemma assignPositions_appends:
  "\<exists>N E. \<forall>ns es. assignPositions t x y ns es opts pid = (ns @ N, es @ E)"
proof (induction t arbitrary: x y pid)
  case (MindMapNode i l s q p cs w h)
  let ?n = "MindMapNode i l s q p cs w h"
  let ?own = "flow_node ?n (js_sub (js_add x (js_half w)) (js_half (Some NODE_WIDTH))) y opts"
  let ?y = "js_add (js_add y (Some NODE_HEIGHT)) (Some Y_SPACING)"
  have "\<exists>N E. \<forall>ns es. assignChildren cs x ?y ns es opts i = (ns @ N, es @ E)"
    by (rule assignChildren_appends_aux) (use MindMapNode.IH in blast)
  then obtain N E where ch: "\<forall>ns es. assignChildren cs x ?y ns es opts i = (ns @ N, es @ E)"
    by blast
  define PE where "PE = push_edge [] pid ?n opts"
  have pe: "\<And>es. push_edge es pid ?n opts = es @ PE"
    unfolding PE_def by (rule push_edge_append)
  show ?case
  proof (cases "cs = []")
    case True
    then have "\<forall>ns es. assignPositions ?n x y ns es opts pid = (ns @ [?own], es @ PE)"
      using pe by (simp add: Let_def)
    then show ?thesis by blast
  next
    case False
    then have "\<forall>ns es. assignPositions ?n x y ns es opts pid
                 = (ns @ (?own # N), es @ (PE @ E))"
      using pe ch by (simp add: Let_def)
    then show ?thesis by blast
  qed
qed

lemma assignChildren_appends:
  "\<exists>N E. \<forall>ns es. assignChildren cs cx y ns es opts pid = (ns @ N, es @ E)"
  by (rule assignChildren_appends_aux) (simp add: assignPositions_appends)

lemma assignPositions_acc:
  "assignPositions t x y ns es opts pid =
     (ns @ fst (assignPositions t x y [] [] opts pid),
      es @ snd (assignPositions t x y [] [] opts pid))"
proof -
  from assignPositions_appends [of t x y opts pid] obtain N E
    where a: "\<forall>ns es. assignPositions t x y ns es opts pid = (ns @ N, es @ E)" by blast
  then have "assignPositions t x y [] [] opts pid = (N, E)" by simp
  with a show ?thesis by simp
qed

lemma assignChildren_acc:
  "assignChildren cs cx y ns es opts pid =
     (ns @ fst (assignChildren cs cx y [] [] opts pid),
      es @ snd (assignChildren cs cx y [] [] opts pid))"
proof -
  from assignChildren_appends [of cs cx y opts pid] obtain N E
    where a: "\<forall>ns es. assignChildren cs cx y ns es opts pid = (ns @ N, es @ E)" by blast
  then have "assignChildren cs cx y [] [] opts pid = (N, E)" by simp
  with a show ?thesis by simp
qed

text \<open>The records of one call: the node itself, then the records of its children in order.\<close>

lemma assignPositions_unfold:
  "assignPositions (MindMapNode i l s q p cs w h) x y [] [] opts pid =
     (flow_node (MindMapNode i l s q p cs w h)
        (js_sub (js_add x (js_half w)) (js_half (Some NODE_WIDTH))) y opts
      # fst (assignChildren cs x (js_add (js_add y (Some NODE_HEIGHT)) (Some Y_SPACING)) [] [] opts i),
      push_edge [] pid (MindMapNode i l s q p cs w h) opts
      @ snd (assignChildren cs x (js_add (js_add y (Some NODE_HEIGHT)) (Some Y_SPACING)) [] [] opts i))"
proof (cases "cs = []")
  case True
  then show ?thesis by (simp add: Let_def)
next
  case False
  let ?n = "MindMapNode i l s q p cs w h"
  let ?own = "flow_node ?n (js_sub (js_add x (js_half w)) (js_half (Some NODE_WIDTH))) y opts"
  let ?y = "js_add (js_add y (Some NODE_HEIGHT)) (Some Y_SPACING)"
  from False have "assignPositions ?n x y [] [] opts pid
                     = assignChildren cs x ?y [?own] (push_edge [] pid ?n opts) opts i"
    by (simp add: Let_def)
  also have "\<dots> = ([?own] @ fst (assignChildren cs x ?y [] [] opts i),
                    push_edge [] pid ?n opts @ snd (assignChildren cs x ?y [] [] opts i))"
    by (rule assignChildren_acc)
  finally show ?thesis by simp
qed

lemma assignChildren_unfold:
  "assignChildren (c # cs) cx y [] [] opts pid =
     (fst (assignPositions c cx y [] [] opts (Some pid))
      @ fst (assignChildren cs (js_add cx (js_add (width c) (Some X_SPACING))) y [] [] opts pid),
      snd (assignPositions c cx y [] [] opts (Some pid))
      @ snd (assignChildren cs (js_add cx (js_add (width c) (Some X_SPACING))) y [] [] opts pid))"
proof -
  obtain N E where c: "assignPositions c cx y [] [] opts (Some pid) = (N, E)"
    by (cases "assignPositions c cx y [] [] opts (Some pid)")
  let ?cx = "js_add cx (js_add (width c) (Some X_SPACING))"
  have "assignChildren (c # cs) cx y [] [] opts pid = assignChildren cs ?cx y N E opts pid"
    by (simp add: c)
  also have "\<dots> = (N @ fst (assignChildren cs ?cx y [] [] opts pid),
                    E @ snd (assignChildren cs ?cx y [] [] opts pid))"
    by (rule assignChildren_acc)
  finally show ?thesis by (simp add: c)
qed

lemma nodes_of_Node:
  "nodes_of (MindMapNode i l s q p cs w h) x y opts pid =
     flow_node (MindMapNode i l s q p cs w h)
       (js_sub (js_add x (js_half w)) (js_half (Some NODE_WIDTH))) y opts
     # child_nodes cs x (js_add (js_add y (Some NODE_HEIGHT)) (Some Y_SPACING)) opts i"
  by (simp only: nodes_of_def child_nodes_def assignPositions_unfold fst_conv)

lemma child_nodes_Nil [simp]: "child_nodes [] cx y opts pid = []"
  by (simp add: child_nodes_def)

lemma child_nodes_Cons:
  "child_nodes (c # cs) cx y opts pid =
     nodes_of c cx y opts (Some pid)
     @ child_nodes cs (js_add cx (js_add (width c) (Some X_SPACING))) y opts pid"
  by (simp only: nodes_of_def child_nodes_def assignChildren_unfold fst_conv)

lemma edges_of_Node:
  "edges_of (MindMapNode i l s q p cs w h) x y opts pid =
     push_edge [] pid (MindMapNode i l s q p cs w h) opts
     @ child_edges cs x (js_add (js_add y (Some NODE_HEIGHT)) (Some Y_SPACING)) opts i"
  by (simp only: edges_of_def child_edges_def assignPositions_unfold snd_conv)

lemma child_edges_Nil [simp]: "child_edges [] cx y opts pid = []"
  by (simp add: child_edges_def)

lemma child_edges_Cons:
  "child_edges (c # cs) cx y opts pid =
     edges_of c cx y opts (Some pid)
     @ child_edges cs (js_add cx (js_add (width c) (Some X_SPACING))) y opts pid"
  by (simp only: edges_of_def child_edges_def assignChildren_unfold snd_conv)

text \<open>A call emits one node record per node of the subtree.\<close>

lemma child_nodes_length_aux:
  "\<forall>c \<in> set cs. \<forall>x y pid. length (nodes_of c x y opts pid) = nodeCount c \<Longrightarrow>
   length (child_nodes cs cx y opts pid) = sum_list (map nodeCount cs)"
  by (induction cs arbitrary: cx) (simp_all add: child_nodes_Cons)

lemma nodes_of_length: "length (nodes_of t x y opts pid) = nodeCount t"
proof (induction t arbitrary: x y pid)
  case (MindMapNode i l s q p cs w h)
  have "\<forall>c \<in> set cs. \<forall>x y pid. length (nodes_of c x y opts pid) = nodeCount c"
    using MindMapNode.IH by blast
  from child_nodes_length_aux [OF this] show ?case by (simp add: nodes_of_Node)
qed

lemma child_nodes_length: "length (child_nodes cs cx y opts pid) = sum_list (map nodeCount cs)"
  by (rule child_nodes_length_aux) (simp add: nodes_of_length)

text \<open>The records of the \<open>i\<close>-th child follow those of the children before it.\<close>

lemma child_nodes_nth:
  "i < length cs \<Longrightarrow> e < nodeCount (cs ! i) \<Longrightarrow>
   child_nodes cs cx y opts pid ! (sum_list (map nodeCount (take i cs)) + e)
     = nodes_of (cs ! i) (cursor_after width X_SPACING cx (take i cs)) y opts (Some pid) ! e"
proof (induction cs arbitrary: i cx)
  case Nil
  then show ?case by simp
next
  case (Cons c cs)
  show ?case
  proof (cases i)
    case 0
    with Cons.prems show ?thesis
      by (simp add: child_nodes_Cons nth_append nodes_of_length)
  next
    case (Suc k)
    with Cons.prems have k: "k < length cs" and e: "e < nodeCount (cs ! k)" by simp_all
    from Cons.IH [OF k e, of "js_add cx (js_add (width c) (Some X_SPACING))"] Suc
    show ?thesis
      by (simp add: child_nodes_Cons nth_append nodes_of_length)
  qed
qed

text \<open>The cursor after children whose footprints are numbers.\<close>

lemma cursor_after_Some:
  "list_all (\<lambda>c. fp c \<noteq> None) cs \<Longrightarrow>
   cursor_after fp sp (Some x) cs = Some (x + sum_list (map (\<lambda>c. or_zero (fp c) + sp) cs))"
proof (induction cs arbitrary: x)
  case Nil
  then show ?case by simp
next
  case (Cons c cs)
  from Cons.prems obtain w where w: "fp c = Some w" by auto
  from Cons.prems have "list_all (\<lambda>c. fp c \<noteq> None) cs" by simp
  from Cons.IH [OF this, of "x + (w + sp)"] w show ?case by (simp add: algebra_simps)
qed

subsection \<open>The node at a path and its emitted record\<close>

lemma preorder_child: "c \<in> set (children t) \<Longrightarrow> set (preorder c) \<subseteq> set (preorder t)"
  by (cases t) auto

lemma subtree_in_preorder: "subtree_at t path = Some n \<Longrightarrow> n \<in> set (preorder t)"
proof (induction path arbitrary: t)
  case Nil
  then show ?case by (simp add: root_in_preorder)
next
  case (Cons i path)
  then have i: "i < length (children t)" and s: "subtree_at (children t ! i) path = Some n"
    by (simp_all split: if_splits)
  from Cons.IH [OF s] preorder_child [of "children t ! i" t] i show ?case by auto
qed

lemma nodeCount_pos: "0 < nodeCount t"
  by (cases t) simp

lemma emit_index_less: "subtree_at t path = Some n \<Longrightarrow> emit_index t path < nodeCount t"
proof (induction path arbitrary: t)
  case Nil
  then show ?case by (simp add: nodeCount_pos)
next
  case (Cons i path)
  then have i: "i < length (children t)" and s: "subtree_at (children t ! i) path = Some n"
    by (simp_all split: if_splits)
  obtain a l su q p cs w h where t: "t = MindMapNode a l su q p cs w h" by (cases t)
  from i t have "cs = take i cs @ (cs ! i) # drop (Suc i) cs" by (simp add: id_take_nth_drop)
  then have "sum_list (map nodeCount cs)
               = sum_list (map nodeCount (take i cs)) + nodeCount (cs ! i) + sum_list (map nodeCount (drop (Suc i) cs))"
    by (metis (no_types, lifting) add.assoc list.simps(9) map_append sum_list.Cons sum_list.append)
  with Cons.IH [OF s] t show ?case by simp
qed

lemma nodes_of_path:
  assumes "\<forall>m \<in> set (preorder t). width m \<noteq> None" and "subtree_at t path = Some n"
  shows "nodes_of t (Some x) (Some y) opts pid ! emit_index t path
           = flow_node n
               (Some (origin_at width X_SPACING t x path + or_zero (width n) / 2 - NODE_WIDTH / 2))
               (Some (y + of_nat (length path) * (NODE_HEIGHT + Y_SPACING))) opts"
  using assms
proof (induction path arbitrary: t x y pid)
  case Nil
  then have n: "n = t" by simp
  obtain a l su q p cs w h where t: "t = MindMapNode a l su q p cs w h" by (cases t)
  from Nil.prems(1) root_in_preorder [of t] t obtain wv where "w = Some wv" by fastforce
  with n t show ?case by (simp add: nodes_of_Node)
next
  case (Cons i path)
  then have i: "i < length (children t)" and s: "subtree_at (children t ! i) path = Some n"
    by (simp_all split: if_splits)
  obtain a l su q p cs w h where t: "t = MindMapNode a l su q p cs w h" by (cases t)
  from i t have ics: "i < length cs" by simp
  then have ci: "cs ! i \<in> set cs" by simp
  from Cons.prems(1) t have all: "\<forall>c \<in> set cs. \<forall>m \<in> set (preorder c). width m \<noteq> None" by auto
  with ci have sub: "\<forall>m \<in> set (preorder (cs ! i)). width m \<noteq> None" by blast
  from all root_in_preorder have "list_all (\<lambda>c. width c \<noteq> None) cs"
    by (fastforce simp: list_all_iff)
  then have "list_all (\<lambda>c. width c \<noteq> None) (take i cs)"
    by (auto simp: list_all_iff dest: in_set_takeD)
  from cursor_after_Some [OF this, of X_SPACING x]
  have cur: "cursor_after width X_SPACING (Some x) (take i cs)
               = Some (x + sum_list (map (\<lambda>c. or_zero (width c) + X_SPACING) (take i cs)))" .
  from s t have e: "emit_index (cs ! i) path < nodeCount (cs ! i)"
    using emit_index_less [of "cs ! i" path n] by simp
  let ?y = "y + NODE_HEIGHT + Y_SPACING"
  have "nodes_of t (Some x) (Some y) opts pid ! emit_index t (i # path)
          = child_nodes cs (Some x) (Some ?y) opts a
              ! (sum_list (map nodeCount (take i cs)) + emit_index (cs ! i) path)"
    using t by (simp add: nodes_of_Node)
  also have "\<dots> = nodes_of (cs ! i) (cursor_after width X_SPACING (Some x) (take i cs)) (Some ?y) opts (Some a)
                      ! emit_index (cs ! i) path"
    by (rule child_nodes_nth [OF ics e])
  also have "\<dots> = flow_node n
               (Some (origin_at width X_SPACING (cs ! i)
                        (x + sum_list (map (\<lambda>c. or_zero (width c) + X_SPACING) (take i cs))) path
                      + or_zero (width n) / 2 - NODE_WIDTH / 2))
               (Some (?y + of_nat (length path) * (NODE_HEIGHT + Y_SPACING))) opts"
    using Cons.IH [OF sub, of _ ?y "Some a"] s t cur by simp
  finally show ?case using t by (simp add: algebra_simps)
qed

subsection \<open>Footprints cover the children\<close>

lemma footprint_ok_ge: "footprint_ok B S fp n \<Longrightarrow> \<exists>v. fp n = Some v \<and> B \<le> v"
  by (auto simp: footprint_ok_def split: if_splits)

lemma sum_list_ge:
  "\<forall>c \<in> set cs. B \<le> f c \<Longrightarrow> of_nat (length cs) * B \<le> sum_list (map f cs)"
  for B :: rat
  by (induction cs) (auto simp: algebra_simps)

lemma sum_list_spaced:
  "sum_list (map (\<lambda>c. f c + sp) cs) = sum_list (map f cs) + of_nat (length cs) * sp"
  for sp :: rat
  by (induction cs) (auto simp: algebra_simps)

lemma footprint_total:
  assumes ok: "footprint_ok B S fp n" and ch: "\<forall>c \<in> set (children n). footprint_ok B S fp c"
    and ne: "children n \<noteq> []" and B: "0 \<le> B" and S: "0 \<le> S"
  shows "fp n = Some (sum_list (map (\<lambda>c. or_zero (fp c)) (children n))
                      + (of_nat (length (children n)) - 1) * S)"
proof -
  let ?cs = "children n"
  let ?total = "sum_list (map (\<lambda>c. or_zero (fp c)) ?cs) + (of_nat (length ?cs) - 1) * S"
  have "\<forall>c \<in> set ?cs. B \<le> or_zero (fp c)"
    using ch footprint_ok_ge [of B S fp] by fastforce
  from sum_list_ge [OF this] have 1: "of_nat (length ?cs) * B \<le> sum_list (map (\<lambda>c. or_zero (fp c)) ?cs)" .
  from ne have len: "(1::rat) \<le> of_nat (length ?cs)" by (cases ?cs) auto
  with B have "B \<le> of_nat (length ?cs) * B" by (simp add: mult_le_cancel_right1)
  moreover from len S have "0 \<le> (of_nat (length ?cs) - 1) * S" by simp
  ultimately have "B \<le> ?total" using 1 by linarith
  with ok ne show ?thesis by (simp add: footprint_ok_def max_def)
qed

subsection \<open>Cursors of siblings\<close>

lemma subtree_at_snoc:
  "subtree_at t (path @ [j]) =
     (case subtree_at t path of
        None \<Rightarrow> None
      | Some n \<Rightarrow> (if j < length (children n) then Some (children n ! j) else None))"
  by (induction path arbitrary: t) auto

lemma origin_at_snoc:
  "subtree_at t path = Some n \<Longrightarrow>
   origin_at fp sp t x (path @ [j])
     = origin_at fp sp t x path + sum_list (map (\<lambda>c. or_zero (fp c) + sp) (take j (children n)))"
  by (induction path arbitrary: t x) (auto split: if_splits)

lemma sum_take_mono:
  fixes f :: "'a \<Rightarrow> rat"
  assumes "i < j" and "j \<le> length cs" and "\<forall>c \<in> set cs. 0 \<le> f c"
  shows "sum_list (map f (take i cs)) + f (cs ! i) \<le> sum_list (map f (take j cs))"
proof -
  from assms have i: "i < length cs" by simp
  have "take j cs = take (Suc i + (j - Suc i)) cs" using assms(1) by simp
  also have "\<dots> = take (Suc i) cs @ take (j - Suc i) (drop (Suc i) cs)" by (rule take_add)
  also have "take (Suc i) cs = take i cs @ [cs ! i]" using i by (rule take_Suc_conv_app_nth)
  finally have eq: "take j cs = (take i cs @ [cs ! i]) @ take (j - Suc i) (drop (Suc i) cs)" .
  have "\<forall>c \<in> set (take (j - Suc i) (drop (Suc i) cs)). 0 \<le> f c"
    using assms(3) by (meson in_set_dropD in_set_takeD)
  then have "0 \<le> sum_list (map f (take (j - Suc i) (drop (Suc i) cs)))"
    by (intro sum_list_nonneg) auto
  then show ?thesis by (simp add: eq)
qed

text \<open>Facts about cursors that hold for any footprint field, base size and spacing.\<close>

lemma ok_children:
  "\<forall>m \<in> set (preorder t). footprint_ok B S fp m \<Longrightarrow> subtree_at t path = Some n \<Longrightarrow>
   footprint_ok B S fp n \<and> (\<forall>c \<in> set (children n). footprint_ok B S fp c)"
proof -
  assume all: "\<forall>m \<in> set (preorder t). footprint_ok B S fp m" and s: "subtree_at t path = Some n"
  from subtree_in_preorder [OF s] have n: "n \<in> set (preorder t)" .
  have "\<forall>c \<in> set (children n). c \<in> set (preorder t)"
  proof
    fix c assume c: "c \<in> set (children n)"
    then obtain j where j: "j < length (children n)" and cj: "children n ! j = c"
      by (auto simp: in_set_conv_nth)
    with s have "subtree_at t (path @ [j]) = Some c" by (simp add: subtree_at_snoc)
    from subtree_in_preorder [OF this] show "c \<in> set (preorder t)" .
  qed
  with all n show ?thesis by blast
qed

lemma origins_separated:
  assumes all: "\<forall>m \<in> set (preorder t). footprint_ok B S fp m"
    and s: "subtree_at t path = Some n" and ij: "i < j" and j: "j < length (children n)"
    and B: "0 \<le> B" and S: "0 \<le> S"
  shows "origin_at fp S t x (path @ [i]) + or_zero (fp (children n ! i)) + S
           \<le> origin_at fp S t x (path @ [j])"
proof -
  let ?f = "\<lambda>c. or_zero (fp c) + S"
  from ok_children [OF all s] have "\<forall>c \<in> set (children n). footprint_ok B S fp c" by simp
  then have "\<forall>c \<in> set (children n). B \<le> or_zero (fp c)"
    using footprint_ok_ge [of B S fp] by fastforce
  with B S have nn: "\<forall>c \<in> set (children n). 0 \<le> ?f c" by fastforce
  from j have "j \<le> length (children n)" by simp
  from sum_take_mono [OF ij this nn]
  have "sum_list (map ?f (take i (children n))) + ?f (children n ! i)
          \<le> sum_list (map ?f (take j (children n)))" .
  then show ?thesis by (simp add: origin_at_snoc [OF s] algebra_simps)
qed

lemma origins_cover:
  assumes all: "\<forall>m \<in> set (preorder t). footprint_ok B S fp m"
    and s: "subtree_at t path = Some n" and k: "length (children n) = Suc k"
    and B: "0 \<le> B" and S: "0 \<le> S"
  shows "origin_at fp S t x (path @ [0]) = origin_at fp S t x path"
    and "origin_at fp S t x (path @ [k]) + or_zero (fp (children n ! k))
         = origin_at fp S t x path + or_zero (fp n)"
proof -
  let ?cs = "children n"
  show "origin_at fp S t x (path @ [0]) = origin_at fp S t x path"
    by (simp add: origin_at_snoc [OF s])
  from k have ne: "?cs \<noteq> []" by auto
  from ok_children [OF all s] have ok: "footprint_ok B S fp n"
    and ch: "\<forall>c \<in> set ?cs. footprint_ok B S fp c" by simp_all
  from footprint_total [OF ok ch ne B S] k
  have w: "or_zero (fp n) = sum_list (map (\<lambda>c. or_zero (fp c)) ?cs) + of_nat k * S" by simp
  from k have split: "?cs = take k ?cs @ [?cs ! k]"
    by (metis lessI take_Suc_conv_app_nth take_all order_refl)
  have "sum_list (map (\<lambda>c. or_zero (fp c)) ?cs)
          = sum_list (map (\<lambda>c. or_zero (fp c)) (take k ?cs)) + or_zero (fp (?cs ! k))"
    by (subst split) simp
  moreover from k have "length (take k ?cs) = k" by simp
  ultimately show "origin_at fp S t x (path @ [k]) + or_zero (fp (?cs ! k))
         = origin_at fp S t x path + or_zero (fp n)"
    by (simp add: origin_at_snoc [OF s] sum_list_spaced w)
qed

subsection \<open>Spans of the top-down layout\<close>

lemma measured_of_ok:
  "\<forall>m \<in> set (preorder t). footprint_ok B S width m \<Longrightarrow> \<forall>m \<in> set (preorder t). width m \<noteq> None"
  using footprint_ok_Some by blast

lemma subtree_span_td:
  assumes all: "\<forall>m \<in> set (preorder t). footprint_ok NODE_WIDTH X_SPACING width m"
    and s: "subtree_at t path = Some n"
  shows "subtree_span (nodes_of t (Some x) (Some y) opts pid) t path
           = Some (origin_at width X_SPACING t x path,
                   origin_at width X_SPACING t x path + or_zero (width n))"
    and "fn_x (nodes_of t (Some x) (Some y) opts pid ! emit_index t path)
           = Some (origin_at width X_SPACING t x path + or_zero (width n) / 2 - NODE_WIDTH / 2)"
proof -
  from ok_children [OF all s] footprint_ok_Some obtain w where w: "width n = Some w" by blast
  from nodes_of_path [OF measured_of_ok [OF all] s, of x y opts pid]
  show p: "fn_x (nodes_of t (Some x) (Some y) opts pid ! emit_index t path)
           = Some (origin_at width X_SPACING t x path + or_zero (width n) / 2 - NODE_WIDTH / 2)"
    by (simp add: flow_node_def)
  show "subtree_span (nodes_of t (Some x) (Some y) opts pid) t path
           = Some (origin_at width X_SPACING t x path,
                   origin_at width X_SPACING t x path + or_zero (width n))"
    by (simp add: subtree_span_def s p allocated_span_def w)
qed

lemma layout_nodes: "fst (initialLayout (Some t) opts) = nodes_of (calculateSubtreeSize t) (Some 0) (Some 0) opts None"
  by (simp add: initialLayout_def nodes_of_def)

lemma NODE_WIDTH_nonneg: "0 \<le> NODE_WIDTH" and X_SPACING_nonneg: "0 \<le> X_SPACING"
  by (simp_all add: NODE_WIDTH_def X_SPACING_def)

lemma siblings_separated_td:
  assumes "subtree_at (calculateSubtreeSize t) (path @ [j]) \<noteq> None" and "i < j"
  shows "separated X_SPACING
           (subtree_span (fst (initialLayout (Some t) opts)) (calculateSubtreeSize t) (path @ [i]))
           (subtree_span (fst (initialLayout (Some t) opts)) (calculateSubtreeSize t) (path @ [j]))"
proof -
  let ?t = "calculateSubtreeSize t"
  note all = size_footprints [of t]
  from assms(1) obtain n where s: "subtree_at ?t path = Some n" and j: "j < length (children n)"
    by (auto simp: subtree_at_snoc split: option.splits if_splits)
  from j assms(2) have i: "i < length (children n)" by simp
  from s i have si: "subtree_at ?t (path @ [i]) = Some (children n ! i)" by (simp add: subtree_at_snoc)
  from s j have sj: "subtree_at ?t (path @ [j]) = Some (children n ! j)" by (simp add: subtree_at_snoc)
  from origins_separated [OF all s assms(2) j NODE_WIDTH_nonneg X_SPACING_nonneg, of 0]
  show ?thesis
    by (simp add: layout_nodes subtree_span_td(1) [OF all si] subtree_span_td(1) [OF all sj] separated_def)
qed

lemma centred_td:
  assumes "subtree_at (calculateSubtreeSize t) path = Some n" and "children n \<noteq> []"
  shows "\<exists>c. box_centre NODE_WIDTH (fn_x (fst (initialLayout (Some t) opts) ! emit_index (calculateSubtreeSize t) path)) = Some c
           \<and> midpoint (children_span (fst (initialLayout (Some t) opts)) (calculateSubtreeSize t) path) = Some c
           \<and> children_span (fst (initialLayout (Some t) opts)) (calculateSubtreeSize t) path
               = subtree_span (fst (initialLayout (Some t) opts)) (calculateSubtreeSize t) path"
proof -
  let ?t = "calculateSubtreeSize t"
  note all = size_footprints [of t]
  note s = assms(1)
  from assms(2) obtain k where k: "length (children n) = Suc k" by (cases "children n") auto
  from s k have s0: "subtree_at ?t (path @ [0]) = Some (children n ! 0)" by (simp add: subtree_at_snoc)
  from s k have sl: "subtree_at ?t (path @ [k]) = Some (children n ! k)"
    by (simp add: subtree_at_snoc)
  note cover = origins_cover [OF all s k NODE_WIDTH_nonneg X_SPACING_nonneg, of 0]
  have "children_span (nodes_of ?t (Some 0) (Some 0) opts None) ?t path
          = combined (subtree_span (nodes_of ?t (Some 0) (Some 0) opts None) ?t (path @ [0]))
                     (subtree_span (nodes_of ?t (Some 0) (Some 0) opts None) ?t (path @ [k]))"
    using assms(2) k by (simp add: children_span_def s)
  also have "\<dots> = Some (origin_at width X_SPACING ?t 0 path, origin_at width X_SPACING ?t 0 path + or_zero (width n))"
    using cover
    by (simp add: combined_def subtree_span_td(1) [OF all s0] subtree_span_td(1) [OF all sl])
  finally show ?thesis
    by (simp add: layout_nodes subtree_span_td [OF all s] box_centre_def midpoint_def)
qed

subsection \<open>The left-to-right assigner appends\<close>

lemma assignChildren_lr_appends_aux:
  assumes "\<forall>c \<in> set cs. \<forall>x y pid. \<exists>N E. \<forall>ns es.
             assignPositions_lr c x y ns es opts pid = (ns @ N, es @ E)"
  shows "\<exists>N E. \<forall>ns es. assignChildren_lr cs cx cy ns es opts pid = (ns @ N, es @ E)"
  using assms
proof (induction cs arbitrary: cy)
  case Nil
  have "\<forall>ns es. assignChildren_lr [] cx cy ns es opts pid = (ns @ [], es @ [])" by simp
  then show ?case by blast
next
  case (Cons c cs)
  let ?cy = "js_add cy (js_add (height c) (Some NODE_SPACING))"
  from Cons.prems obtain N1 E1
    where c: "\<forall>ns es. assignPositions_lr c cx cy ns es opts (Some pid) = (ns @ N1, es @ E1)"
    by (meson list.set_intros(1))
  from Cons.prems have "\<forall>c \<in> set cs. \<forall>x y pid. \<exists>N E. \<forall>ns es.
             assignPositions_lr c x y ns es opts pid = (ns @ N, es @ E)" by simp
  from Cons.IH [OF this, of ?cy] obtain N2 E2
    where r: "\<forall>ns es. assignChildren_lr cs cx ?cy ns es opts pid = (ns @ N2, es @ E2)" by blast
  have "\<forall>ns es. assignChildren_lr (c # cs) cx cy ns es opts pid = (ns @ (N1 @ N2), es @ (E1 @ E2))"
    by (simp add: c r)
  then show ?case by blast
qed

lemma assignPositions_lr_appends:
  "\<exists>N E. \<forall>ns es. assignPositions_lr t x y ns es opts pid = (ns @ N, es @ E)"
proof (induction t arbitrary: x y pid)
  case (MindMapNode i l s q p cs w h)
  let ?n = "MindMapNode i l s q p cs w h"
  let ?own = "flow_node ?n x (js_sub (js_add y (js_half h)) (js_half (Some LR_NODE_HEIGHT))) opts"
  let ?cx = "js_add (js_add x (Some LR_NODE_WIDTH)) (Some RANK_SPACING)"
  let ?cy = "js_add y (js_half (js_sub h (Some (childrenStackHeight cs))))"
  have "\<exists>N E. \<forall>ns es. assignChildren_lr cs ?cx ?cy ns es opts i = (ns @ N, es @ E)"
    by (rule assignChildren_lr_appends_aux) (use MindMapNode.IH in blast)
  then obtain N E where ch: "\<forall>ns es. assignChildren_lr cs ?cx ?cy ns es opts i = (ns @ N, es @ E)"
    by blast
  define PE where "PE = push_edge [] pid ?n opts"
  have pe: "\<And>es. push_edge es pid ?n opts = es @ PE"
    unfolding PE_def by (rule push_edge_append)
  show ?case
  proof (cases "cs = []")
    case True
    then have "\<forall>ns es. assignPositions_lr ?n x y ns es opts pid = (ns @ [?own], es @ PE)"
      using pe by (simp add: Let_def)
    then show ?thesis by blast
  next
    case False
    then have "\<forall>ns es. assignPositions_lr ?n x y ns es opts pid
                 = (ns @ (?own # N), es @ (PE @ E))"
      using pe ch by (simp add: Let_def)
    then show ?thesis by blast
  qed
qed

lemma assignChildren_lr_appends:
  "\<exists>N E. \<forall>ns es. assignChildren_lr cs cx cy ns es opts pid = (ns @ N, es @ E)"
  by (rule assignChildren_lr_appends_aux) (simp add: assignPositions_lr_appends)

lemma assignChildren_lr_acc:
  "assignChildren_lr cs cx cy ns es opts pid =
     (ns @ fst (assignChildren_lr cs cx cy [] [] opts pid),
      es @ snd (assignChildren_lr cs cx cy [] [] opts pid))"
proof -
  from assignChildren_lr_appends [of cs cx cy opts pid] obtain N E
    where a: "\<forall>ns es. assignChildren_lr cs cx cy ns es opts pid = (ns @ N, es @ E)" by blast
  then have "assignChildren_lr cs cx cy [] [] opts pid = (N, E)" by simp
  with a show ?thesis by simp
qed

lemma assignPositions_lr_unfold:
  "assignPositions_lr (MindMapNode i l s q p cs w h) x y [] [] opts pid =
     (flow_node (MindMapNode i l s q p cs w h) x
        (js_sub (js_add y (js_half h)) (js_half (Some LR_NODE_HEIGHT))) opts
      # fst (assignChildren_lr cs (js_add (js_add x (Some LR_NODE_WIDTH)) (Some RANK_SPACING))
               (js_add y (js_half (js_sub h (Some (childrenStackHeight cs))))) [] [] opts i),
      push_edge [] pid (MindMapNode i l s q p cs w h) opts
      @ snd (assignChildren_lr cs (js_add (js_add x (Some LR_NODE_WIDTH)) (Some RANK_SPACING))
               (js_add y (js_half (js_sub h (Some (childrenStackHeight cs))))) [] [] opts i))"
proof (cases "cs = []")
  case True
  then show ?thesis by (simp add: Let_def)
next
  case False
  let ?n = "MindMapNode i l s q p cs w h"
  let ?own = "flow_node ?n x (js_sub (js_add y (js_half h)) (js_half (Some LR_NODE_HEIGHT))) opts"
  let ?cx = "js_add (js_add x (Some LR_NODE_WIDTH)) (Some RANK_SPACING)"
  let ?cy = "js_add y (js_half (js_sub h (Some (childrenStackHeight cs))))"
  from False have "assignPositions_lr ?n x y [] [] opts pid
                     = assignChildren_lr cs ?cx ?cy [?own] (push_edge [] pid ?n opts) opts i"
    by (simp add: Let_def)
  also have "\<dots> = ([?own] @ fst (assignChildren_lr cs ?cx ?cy [] [] opts i),
                    push_edge [] pid ?n opts @ snd (assignChildren_lr cs ?cx ?cy [] [] opts i))"
    by (rule assignChildren_lr_acc)
  finally show ?thesis by simp
qed

lemma assignChildren_lr_unfold:
  "assignChildren_lr (c # cs) cx cy [] [] opts pid =
     (fst (assignPositions_lr c cx cy [] [] opts (Some pid))
      @ fst (assignChildren_lr cs cx (js_add cy (js_add (height c) (Some NODE_SPACING))) [] [] opts pid),
      snd (assignPositions_lr c cx cy [] [] opts (Some pid))
      @ snd (assignChildren_lr cs cx (js_add cy (js_add (height c) (Some NODE_SPACING))) [] [] opts pid))"
proof -
  obtain N E where c: "assignPositions_lr c cx cy [] [] opts (Some pid) = (N, E)"
    by (cases "assignPositions_lr c cx cy [] [] opts (Some pid)")
  let ?cy = "js_add cy (js_add (height c) (Some NODE_SPACING))"
  have "assignChildren_lr (c # cs) cx cy [] [] opts pid = assignChildren_lr cs cx ?cy N E opts pid"
    by (simp add: c)
  also have "\<dots> = (N @ fst (assignChildren_lr cs cx ?cy [] [] opts pid),
                    E @ snd (assignChildren_lr cs cx ?cy [] [] opts pid))"
    by (rule assignChildren_lr_acc)
  finally show ?thesis by (simp add: c)
qed

lemma nodes_of_lr_Node:
  "nodes_of_lr (MindMapNode i l s q p cs w h) x y opts pid =
     flow_node (MindMapNode i l s q p cs w h) x
       (js_sub (js_add y (js_half h)) (js_half (Some LR_NODE_HEIGHT))) opts
     # child_nodes_lr cs (js_add (js_add x (Some LR_NODE_WIDTH)) (Some RANK_SPACING))
         (js_add y (js_half (js_sub h (Some (childrenStackHeight cs))))) opts i"
  by (simp only: nodes_of_lr_def child_nodes_lr_def assignPositions_lr_unfold fst_conv)

lemma child_nodes_lr_Nil [simp]: "child_nodes_lr [] cx cy opts pid = []"
  by (simp add: child_nodes_lr_def)

lemma child_nodes_lr_Cons:
  "child_nodes_lr (c # cs) cx cy opts pid =
     nodes_of_lr c cx cy opts (Some pid)
     @ child_nodes_lr cs cx (js_add cy (js_add (height c) (Some NODE_SPACING))) opts pid"
  by (simp only: nodes_of_lr_def child_nodes_lr_def assignChildren_lr_unfold fst_conv)

lemma edges_of_lr_Node:
  "edges_of_lr (MindMapNode i l s q p cs w h) x y opts pid =
     push_edge [] pid (MindMapNode i l s q p cs w h) opts
     @ child_edges_lr cs (js_add (js_add x (Some LR_NODE_WIDTH)) (Some RANK_SPACING))
         (js_add y (js_half (js_sub h (Some (childrenStackHeight cs))))) opts i"
  by (simp only: edges_of_lr_def child_edges_lr_def assignPositions_lr_unfold snd_conv)

lemma child_edges_lr_Nil [simp]: "child_edges_lr [] cx cy opts pid = []"
  by (simp add: child_edges_lr_def)

lemma child_edges_lr_Cons:
  "child_edges_lr (c # cs) cx cy opts pid =
     edges_of_lr c cx cy opts (Some pid)
     @ child_edges_lr cs cx (js_add cy (js_add (height c) (Some NODE_SPACING))) opts pid"
  by (simp only: edges_of_lr_def child_edges_lr_def assignChildren_lr_unfold snd_conv)

lemma child_nodes_lr_length_aux:
  "\<forall>c \<in> set cs. \<forall>x y pid. length (nodes_of_lr c x y opts pid) = nodeCount c \<Longrightarrow>
   length (child_nodes_lr cs cx cy opts pid) = sum_list (map nodeCount cs)"
  by (induction cs arbitrary: cy) (simp_all add: child_nodes_lr_Cons)

lemma nodes_of_lr_length: "length (nodes_of_lr t x y opts pid) = nodeCount t"
proof (induction t arbitrary: x y pid)
  case (MindMapNode i l s q p cs w h)
  have "\<forall>c \<in> set cs. \<forall>x y pid. length (nodes_of_lr c x y opts pid) = nodeCount c"
    using MindMapNode.IH by blast
  from child_nodes_lr_length_aux [OF this] show ?case by (simp add: nodes_of_lr_Node)
qed

lemma child_nodes_lr_nth:
  "i < length cs \<Longrightarrow> e < nodeCount (cs ! i) \<Longrightarrow>
   child_nodes_lr cs cx cy opts pid ! (sum_list (map nodeCount (take i cs)) + e)
     = nodes_of_lr (cs ! i) cx (cursor_after height NODE_SPACING cy (take i cs)) opts (Some pid) ! e"
proof (induction cs arbitrary: i cy)
  case Nil
  then show ?case by simp
next
  case (Cons c cs)
  show ?case
  proof (cases i)
    case 0
    with Cons.prems show ?thesis
      by (simp add: child_nodes_lr_Cons nth_append nodes_of_lr_length)
  next
    case (Suc k)
    with Cons.prems have k: "k < length cs" and e: "e < nodeCount (cs ! k)" by simp_all
    from Cons.IH [OF k e, of "js_add cy (js_add (height c) (Some NODE_SPACING))"] Suc
    show ?thesis
      by (simp add: child_nodes_lr_Cons nth_append nodes_of_lr_length)
  qed
qed

subsection \<open>Spans of the left-to-right layout\<close>

lemma foldl_plus: "foldl (\<lambda>acc c. acc + f c) a cs = a + sum_list (map f cs)"
  for a :: rat
  by (induction cs arbitrary: a) (simp_all add: algebra_simps)

lemma childrenStackHeight_sum:
  "childrenStackHeight cs
     = sum_list (map (\<lambda>c. or_zero (height c)) cs) + (of_nat (length cs) - 1) * NODE_SPACING"
  by (simp add: childrenStackHeight_def foldl_plus)

lemma LR_NODE_HEIGHT_nonneg: "0 \<le> LR_NODE_HEIGHT" and NODE_SPACING_nonneg: "0 \<le> NODE_SPACING"
  by (simp_all add: LR_NODE_HEIGHT_def NODE_SPACING_def)

lemma nodes_of_lr_path:
  assumes "\<forall>m \<in> set (preorder t). footprint_ok LR_NODE_HEIGHT NODE_SPACING height m"
    and "subtree_at t path = Some n"
  shows "nodes_of_lr t (Some x) (Some y) opts pid ! emit_index t path
           = flow_node n
               (Some (x + of_nat (length path) * (LR_NODE_WIDTH + RANK_SPACING)))
               (Some (origin_at height NODE_SPACING t y path + or_zero (height n) / 2 - LR_NODE_HEIGHT / 2))
               opts"
  using assms
proof (induction path arbitrary: t x y pid)
  case Nil
  then have n: "n = t" by simp
  obtain a l su q p cs w h where t: "t = MindMapNode a l su q p cs w h" by (cases t)
  from Nil.prems(1) root_in_preorder [of t] footprint_ok_Some [of LR_NODE_HEIGHT NODE_SPACING height t] t
  obtain hv where "h = Some hv" by fastforce
  with n t show ?case by (simp add: nodes_of_lr_Node)
next
  case (Cons i path)
  then have i: "i < length (children t)" and s: "subtree_at (children t ! i) path = Some n"
    by (simp_all split: if_splits)
  obtain a l su q p cs w h where t: "t = MindMapNode a l su q p cs w h" by (cases t)
  from i t have ics: "i < length cs" by simp
  then have ci: "cs ! i \<in> set cs" and ne: "cs \<noteq> []" by auto
  from Cons.prems(1) t
  have all: "\<forall>c \<in> set cs. \<forall>m \<in> set (preorder c). footprint_ok LR_NODE_HEIGHT NODE_SPACING height m"
    by auto
  with ci have sub: "\<forall>m \<in> set (preorder (cs ! i)). footprint_ok LR_NODE_HEIGHT NODE_SPACING height m"
    by blast
  from all root_in_preorder have chok: "\<forall>c \<in> set (children t). footprint_ok LR_NODE_HEIGHT NODE_SPACING height c"
    using t by fastforce
  from Cons.prems(1) root_in_preorder [of t] have tok: "footprint_ok LR_NODE_HEIGHT NODE_SPACING height t"
    by blast
  from footprint_total [OF tok chok _ LR_NODE_HEIGHT_nonneg NODE_SPACING_nonneg] ne t
  have h: "h = Some (childrenStackHeight cs)" by (simp add: childrenStackHeight_sum)
  from chok t footprint_ok_Some have "list_all (\<lambda>c. height c \<noteq> None) cs"
    by (fastforce simp: list_all_iff)
  then have "list_all (\<lambda>c. height c \<noteq> None) (take i cs)"
    by (auto simp: list_all_iff dest: in_set_takeD)
  from cursor_after_Some [OF this, of NODE_SPACING y]
  have cur: "cursor_after height NODE_SPACING (Some y) (take i cs)
               = Some (y + sum_list (map (\<lambda>c. or_zero (height c) + NODE_SPACING) (take i cs)))" .
  from s t have e: "emit_index (cs ! i) path < nodeCount (cs ! i)"
    using emit_index_less [of "cs ! i" path n] by simp
  let ?x = "x + LR_NODE_WIDTH + RANK_SPACING"
  have "nodes_of_lr t (Some x) (Some y) opts pid ! emit_index t (i # path)
          = child_nodes_lr cs (Some ?x) (Some y) opts a
              ! (sum_list (map nodeCount (take i cs)) + emit_index (cs ! i) path)"
    using t h by (simp add: nodes_of_lr_Node)
  also have "\<dots> = nodes_of_lr (cs ! i) (Some ?x) (cursor_after height NODE_SPACING (Some y) (take i cs)) opts (Some a)
                      ! emit_index (cs ! i) path"
    by (rule child_nodes_lr_nth [OF ics e])
  also have "\<dots> = flow_node n
               (Some (?x + of_nat (length path) * (LR_NODE_WIDTH + RANK_SPACING)))
               (Some (origin_at height NODE_SPACING (cs ! i)
                        (y + sum_list (map (\<lambda>c. or_zero (height c) + NODE_SPACING) (take i cs))) path
                      + or_zero (height n) / 2 - LR_NODE_HEIGHT / 2))
               opts"
    using Cons.IH [OF sub, of ?x _ "Some a"] s t cur by simp
  finally show ?case using t by (simp add: algebra_simps)
qed

lemma subtree_span_lr_eq:
  assumes all: "\<forall>m \<in> set (preorder t). footprint_ok LR_NODE_HEIGHT NODE_SPACING height m"
    and s: "subtree_at t path = Some n"
  shows "subtree_span_lr (nodes_of_lr t (Some x) (Some y) opts pid) t path
           = Some (origin_at height NODE_SPACING t y path,
                   origin_at height NODE_SPACING t y path + or_zero (height n))"
    and "fn_y (nodes_of_lr t (Some x) (Some y) opts pid ! emit_index t path)
           = Some (origin_at height NODE_SPACING t y path + or_zero (height n) / 2 - LR_NODE_HEIGHT / 2)"
proof -
  from ok_children [OF all s] footprint_ok_Some obtain h where h: "height n = Some h" by blast
  from nodes_of_lr_path [OF all s, of x y opts pid]
  show p: "fn_y (nodes_of_lr t (Some x) (Some y) opts pid ! emit_index t path)
           = Some (origin_at height NODE_SPACING t y path + or_zero (height n) / 2 - LR_NODE_HEIGHT / 2)"
    by (simp add: flow_node_def)
  show "subtree_span_lr (nodes_of_lr t (Some x) (Some y) opts pid) t path
           = Some (origin_at height NODE_SPACING t y path,
                   origin_at height NODE_SPACING t y path + or_zero (height n))"
    by (simp add: subtree_span_lr_def s p allocated_span_def h)
qed

lemma layout_lr_nodes:
  "fst (initialLayout_lr (Some t) opts) = nodes_of_lr (calculateSubtreeHeight t) (Some 0) (Some 0) opts None"
  by (simp add: initialLayout_lr_def nodes_of_lr_def)

lemma siblings_separated_lr:
  assumes "subtree_at (calculateSubtreeHeight t) (path @ [j]) \<noteq> None" and "i < j"
  shows "separated NODE_SPACING
           (subtree_span_lr (fst (initialLayout_lr (Some t) opts)) (calculateSubtreeHeight t) (path @ [i]))
           (subtree_span_lr (fst (initialLayout_lr (Some t) opts)) (calculateSubtreeHeight t) (path @ [j]))"
proof -
  let ?t = "calculateSubtreeHeight t"
  note all = height_footprints [of t]
  from assms(1) obtain n where s: "subtree_at ?t path = Some n" and j: "j < length (children n)"
    by (auto simp: subtree_at_snoc split: option.splits if_splits)
  from j assms(2) have i: "i < length (children n)" by simp
  from s i have si: "subtree_at ?t (path @ [i]) = Some (children n ! i)" by (simp add: subtree_at_snoc)
  from s j have sj: "subtree_at ?t (path @ [j]) = Some (children n ! j)" by (simp add: subtree_at_snoc)
  from origins_separated [OF all s assms(2) j LR_NODE_HEIGHT_nonneg NODE_SPACING_nonneg, of 0]
  show ?thesis
    by (simp add: layout_lr_nodes subtree_span_lr_eq(1) [OF all si] subtree_span_lr_eq(1) [OF all sj]
          separated_def)
qed

lemma centred_lr:
  assumes "subtree_at (calculateSubtreeHeight t) path = Some n" and "children n \<noteq> []"
  shows "\<exists>c. box_centre LR_NODE_HEIGHT (fn_y (fst (initialLayout_lr (Some t) opts) ! emit_index (calculateSubtreeHeight t) path)) = Some c
           \<and> midpoint (children_span_lr (fst (initialLayout_lr (Some t) opts)) (calculateSubtreeHeight t) path) = Some c
           \<and> children_span_lr (fst (initialLayout_lr (Some t) opts)) (calculateSubtreeHeight t) path
               = subtree_span_lr (fst (initialLayout_lr (Some t) opts)) (calculateSubtreeHeight t) path"
proof -
  let ?t = "calculateSubtreeHeight t"
  note all = height_footprints [of t]
  note s = assms(1)
  from assms(2) obtain k where k: "length (children n) = Suc k" by (cases "children n") auto
  from s k have s0: "subtree_at ?t (path @ [0]) = Some (children n ! 0)" by (simp add: subtree_at_snoc)
  from s k have sl: "subtree_at ?t (path @ [k]) = Some (children n ! k)"
    by (simp add: subtree_at_snoc)
  note cover = origins_cover [OF all s k LR_NODE_HEIGHT_nonneg NODE_SPACING_nonneg, of 0]
  have "children_span_lr (nodes_of_lr ?t (Some 0) (Some 0) opts None) ?t path
          = combined (subtree_span_lr (nodes_of_lr ?t (Some 0) (Some 0) opts None) ?t (path @ [0]))
                     (subtree_span_lr (nodes_of_lr ?t (Some 0) (Some 0) opts None) ?t (path @ [k]))"
    using assms(2) k by (simp add: children_span_lr_def s)
  also have "\<dots> = Some (origin_at height NODE_SPACING ?t 0 path, origin_at height NODE_SPACING ?t 0 path + or_zero (height n))"
    using cover
    by (simp add: combined_def subtree_span_lr_eq(1) [OF all s0] subtree_span_lr_eq(1) [OF all sl])
  finally show ?thesis
    by (simp add: layout_lr_nodes subtree_span_lr_eq [OF all s] box_centre_def midpoint_def)
qed

subsection \<open>Edges\<close>

text \<open>The metric pass changes neither ids nor shape.\<close>

lemma node_id_calculateSubtreeSize [simp]: "node_id (calculateSubtreeSize t) = node_id t"
  by (cases t) (simp add: Let_def)

lemma node_id_calculateSubtreeHeight [simp]: "node_id (calculateSubtreeHeight t) = node_id t"
  by (cases t) (simp add: Let_def)

lemma flow_edge_id: "node_id c = node_id c' \<Longrightarrow> flow_edge i c opts = flow_edge i c' opts"
  by (simp add: flow_edge_def)

lemma expected_edges_size: "expected_edges opts (calculateSubtreeSize t) = expected_edges opts t"
proof (induction t)
  case (MindMapNode i l s q p cs w h)
  show ?case using MindMapNode.IH
    by (simp add: Let_def flow_edge_def comp_def cong: map_cong)
qed

lemma expected_edges_height: "expected_edges opts (calculateSubtreeHeight t) = expected_edges opts t"
proof (induction t)
  case (MindMapNode i l s q p cs w h)
  show ?case using MindMapNode.IH
    by (simp add: Let_def flow_edge_def comp_def cong: map_cong)
qed

lemma named_parents_size: "named_parents (calculateSubtreeSize t) = named_parents t"
  by (induction t) (auto simp: Let_def list_all_iff)

lemma named_parents_height: "named_parents (calculateSubtreeHeight t) = named_parents t"
  by (induction t) (auto simp: Let_def list_all_iff)

text \<open>
  Below a node with a non-empty id every child gets its edge; the call for the root gets no
  parent id and pushes none.
\<close>

lemma child_edges_named_aux:
  assumes "\<forall>c \<in> set cs. \<forall>x y pid. edges_of c x y opts pid = push_edge [] pid c opts @ expected_edges opts c"
    and "pid \<noteq> []"
  shows "child_edges cs cx y opts pid
           = concat (map (\<lambda>c. flow_edge pid c opts # expected_edges opts c) cs)"
  using assms
  by (induction cs arbitrary: cx) (simp_all add: child_edges_Cons push_edge_def)

lemma edges_of_named:
  "named_parents t \<Longrightarrow> edges_of t x y opts pid = push_edge [] pid t opts @ expected_edges opts t"
proof (induction t arbitrary: x y pid)
  case (MindMapNode i l s q p cs w h)
  show ?case
  proof (cases "cs = []")
    case True
    then show ?thesis by (simp add: edges_of_Node)
  next
    case False
    with MindMapNode.prems have i: "i \<noteq> []" and named: "\<forall>c \<in> set cs. named_parents c"
      by (simp_all add: list_all_iff)
    have "\<forall>c \<in> set cs. \<forall>x y pid. edges_of c x y opts pid = push_edge [] pid c opts @ expected_edges opts c"
      using MindMapNode.IH named by blast
    from child_edges_named_aux [OF this i] show ?thesis by (simp add: edges_of_Node)
  qed
qed

lemma child_edges_lr_named_aux:
  assumes "\<forall>c \<in> set cs. \<forall>x y pid. edges_of_lr c x y opts pid = push_edge [] pid c opts @ expected_edges opts c"
    and "pid \<noteq> []"
  shows "child_edges_lr cs cx cy opts pid
           = concat (map (\<lambda>c. flow_edge pid c opts # expected_edges opts c) cs)"
  using assms
  by (induction cs arbitrary: cy) (simp_all add: child_edges_lr_Cons push_edge_def)

lemma edges_of_lr_named:
  "named_parents t \<Longrightarrow> edges_of_lr t x y opts pid = push_edge [] pid t opts @ expected_edges opts t"
proof (induction t arbitrary: x y pid)
  case (MindMapNode i l s q p cs w h)
  show ?case
  proof (cases "cs = []")
    case True
    then show ?thesis by (simp add: edges_of_lr_Node)
  next
    case False
    with MindMapNode.prems have i: "i \<noteq> []" and named: "\<forall>c \<in> set cs. named_parents c"
      by (simp_all add: list_all_iff)
    have "\<forall>c \<in> set cs. \<forall>x y pid. edges_of_lr c x y opts pid = push_edge [] pid c opts @ expected_edges opts c"
      using MindMapNode.IH named by blast
    from child_edges_lr_named_aux [OF this i] show ?thesis by (simp add: edges_of_lr_Node)
  qed
qed

lemma layout_edges:
  "named_parents t \<Longrightarrow> snd (initialLayout (Some t) opts) = expected_edges opts t"
  using edges_of_named [of "calculateSubtreeSize t" "Some 0" "Some 0" opts None]
  by (simp add: initialLayout_def edges_of_def named_parents_size expected_edges_size push_edge_def)

lemma layout_lr_edges:
  "named_parents t \<Longrightarrow> snd (initialLayout_lr (Some t) opts) = expected_edges opts t"
  using edges_of_lr_named [of "calculateSubtreeHeight t" "Some 0" "Some 0" opts None]
  by (simp add: initialLayout_lr_def edges_of_lr_def named_parents_height expected_edges_height push_edge_def)

text \<open>One edge per node below the root, aimed at that node.\<close>

lemma expected_edges_length: "Suc (length (expected_edges opts t)) = nodeCount t"
proof (induction t)
  case (MindMapNode i l s q p cs w h)
  have "length (concat (map (\<lambda>c. flow_edge i c opts # expected_edges opts c) cs))
          = sum_list (map nodeCount cs)"
    using MindMapNode.IH by (induction cs) auto
  then show ?case by simp
qed

lemma expected_edges_targets:
  "map fe_target (expected_edges opts t) = map node_id (tl (preorder t))"
proof (induction t)
  case (MindMapNode i l s q p cs w h)
  have "\<And>c. c \<in> set cs \<Longrightarrow> fe_target (flow_edge i c opts) # map fe_target (expected_edges opts c)
                              = map node_id (preorder c)"
  proof -
    fix c assume c: "c \<in> set cs"
    obtain a b d e f g k m where "c = MindMapNode a b d e f g k m" by (cases c)
    with MindMapNode.IH [OF c] show "fe_target (flow_edge i c opts) # map fe_target (expected_edges opts c)
                              = map node_id (preorder c)"
      by (simp add: flow_edge_def)
  qed
  then have "map fe_target (concat (map (\<lambda>c. flow_edge i c opts # expected_edges opts c) cs))
          = map node_id (concat (map preorder cs))"
    by (induction cs) auto
  then show ?case by simp
qed

subsection \<open>The emitted list follows the pre-order\<close>

lemma preorder_length: "length (preorder t) = nodeCount t"
proof (induction t)
  case (MindMapNode i l s q p cs w h)
  have "length (concat (map preorder cs)) = sum_list (map nodeCount cs)"
    using MindMapNode.IH by (induction cs) auto
  then show ?case by simp
qed

lemma concat_preorder_nth:
  "i < length cs \<Longrightarrow> e < nodeCount (cs ! i) \<Longrightarrow>
   concat (map preorder cs) ! (sum_list (map nodeCount (take i cs)) + e) = preorder (cs ! i) ! e"
proof (induction cs arbitrary: i)
  case Nil
  then show ?case by simp
next
  case (Cons c cs)
  show ?case
  proof (cases i)
    case 0
    with Cons.prems show ?thesis by (simp add: nth_append preorder_length)
  next
    case (Suc k)
    with Cons.prems have "k < length cs" and "e < nodeCount (cs ! k)" by simp_all
    from Cons.IH [OF this] Suc show ?thesis by (simp add: nth_append preorder_length)
  qed
qed

lemma preorder_hd: "preorder t ! 0 = t"
  by (cases t) simp

lemma emit_index_preorder: "subtree_at t path = Some n \<Longrightarrow> preorder t ! emit_index t path = n"
proof (induction path arbitrary: t)
  case Nil
  then show ?case by (simp add: preorder_hd)
next
  case (Cons i path)
  then have i: "i < length (children t)" and s: "subtree_at (children t ! i) path = Some n"
    by (simp_all split: if_splits)
  obtain a l su q p cs w h where t: "t = MindMapNode a l su q p cs w h" by (cases t)
  from i t have ics: "i < length cs" by simp
  from s t have e: "emit_index (cs ! i) path < nodeCount (cs ! i)"
    using emit_index_less [of "cs ! i" path n] by simp
  from concat_preorder_nth [OF ics e] Cons.IH [OF s] t show ?case by simp
qed

lemma child_nodes_ids_aux:
  "\<forall>c \<in> set cs. \<forall>x y pid. map fn_id (nodes_of c x y opts pid) = map node_id (preorder c) \<Longrightarrow>
   map fn_id (child_nodes cs cx y opts pid) = map node_id (concat (map preorder cs))"
  by (induction cs arbitrary: cx) (simp_all add: child_nodes_Cons)

lemma nodes_of_ids: "map fn_id (nodes_of t x y opts pid) = map node_id (preorder t)"
proof (induction t arbitrary: x y pid)
  case (MindMapNode i l s q p cs w h)
  have "\<forall>c \<in> set cs. \<forall>x y pid. map fn_id (nodes_of c x y opts pid) = map node_id (preorder c)"
    using MindMapNode.IH by blast
  from child_nodes_ids_aux [OF this] show ?case by (simp add: nodes_of_Node flow_node_def)
qed

lemma child_nodes_lr_ids_aux:
  "\<forall>c \<in> set cs. \<forall>x y pid. map fn_id (nodes_of_lr c x y opts pid) = map node_id (preorder c) \<Longrightarrow>
   map fn_id (child_nodes_lr cs cx cy opts pid) = map node_id (concat (map preorder cs))"
  by (induction cs arbitrary: cy) (simp_all add: child_nodes_lr_Cons)

lemma nodes_of_lr_ids: "map fn_id (nodes_of_lr t x y opts pid) = map node_id (preorder t)"
proof (induction t arbitrary: x y pid)
  case (MindMapNode i l s q p cs w h)
  have "\<forall>c \<in> set cs. \<forall>x y pid. map fn_id (nodes_of_lr c x y opts pid) = map node_id (preorder c)"
    using MindMapNode.IH by blast
  from child_nodes_lr_ids_aux [OF this] show ?case by (simp add: nodes_of_lr_Node flow_node_def)
qed

lemma preorder_ids_size: "map node_id (preorder (calculateSubtreeSize t)) = map node_id (preorder t)"
proof (induction t)
  case (MindMapNode i l s q p cs w h)
  have "map node_id (concat (map preorder (map calculateSubtreeSize cs))) = map node_id (concat (map preorder cs))"
    using MindMapNode.IH by (induction cs) auto
  then show ?case by (simp add: Let_def)
qed

lemma preorder_ids_height: "map node_id (preorder (calculateSubtreeHeight t)) = map node_id (preorder t)"
proof (induction t)
  case (MindMapNode i l s q p cs w h)
  have "map node_id (concat (map preorder (map calculateSubtreeHeight cs))) = map node_id (concat (map preorder cs))"
    using MindMapNode.IH by (induction cs) auto
  then show ?case by (simp add: Let_def)
qed

lemma layout_ids: "map fn_id (fst (initialLayout (Some t) opts)) = map node_id (preorder t)"
  by (simp only: layout_nodes nodes_of_ids preorder_ids_size)

lemma layout_lr_ids: "map fn_id (fst (initialLayout_lr (Some t) opts)) = map node_id (preorder t)"
  by (simp only: layout_lr_nodes nodes_of_lr_ids preorder_ids_height)

lemma layout_no_data: "initialLayout None opts = ([], [])" "initialLayout_lr None opts = ([], [])"
  by (simp_all add: initialLayout_def initialLayout_lr_def)

subsection \<open>The layouts of the scenario tree\<close>

lemmas layout_eval =
  initialLayout_def initialLayout_lr_def scenario_tree_def branch_def leaf_def Let_def
  totalWidth_loop_def totalHeight_loop_def childrenStackHeight_def flow_node_def flow_edge_def
  push_edge_def NODE_WIDTH_def NODE_HEIGHT_def X_SPACING_def Y_SPACING_def LR_NODE_WIDTH_def
  LR_NODE_HEIGHT_def RANK_SPACING_def NODE_SPACING_def default_options_def fontSizeClass_def

lemma scenario_layout:
  "map (\<lambda>v. (fn_id v, fn_x v, fn_y v)) (fst (initialLayout (Some scenario_tree) default_options))
     = [(''root'', Some 290, Some 0), (''A'', Some 145, Some 220), (''A1'', Some 0, Some 440),
        (''A2'', Some 290, Some 440), (''B'', Some 580, Some 220)]"
  by (simp add: layout_eval)

lemma scenario_layout_lr:
  "map (\<lambda>v. (fn_id v, fn_x v, fn_y v)) (fst (initialLayout_lr (Some scenario_tree) default_options))
     = [(''root'', Some 0, Some 164), (''A'', Some 420, Some 82), (''A1'', Some 840, Some 0),
        (''A2'', Some 840, Some 164), (''B'', Some 420, Some 328)]"
  by (simp add: layout_eval)

lemma scenario_edges:
  "map (\<lambda>e. (fe_source e, fe_target e)) (snd (initialLayout (Some scenario_tree) default_options))
     = [(''root'', ''A''), (''A'', ''A1''), (''A'', ''A2''), (''root'', ''B'')]"
  by (simp add: layout_eval)

text \<open>The metric pass keeps the number of nodes.\<close>

lemma nodeCount_size: "nodeCount (calculateSubtreeSize t) = nodeCount t"
  using arg_cong [OF preorder_ids_size [of t], of length] by (simp add: preorder_length)

lemma nodeCount_height: "nodeCount (calculateSubtreeHeight t) = nodeCount t"
  using arg_cong [OF preorder_ids_height [of t], of length] by (simp add: preorder_length)

lemmas span_eval =
  subtree_span_def subtree_span_lr_def children_span_def children_span_lr_def allocated_span_def
  combined_def midpoint_def box_centre_def separated_def

lemma scenario_spans:
  "subtree_span (fst (initialLayout (Some scenario_tree) default_options))
     (calculateSubtreeSize scenario_tree) [0] = Some (0, 550)"
  "subtree_span (fst (initialLayout (Some scenario_tree) default_options))
     (calculateSubtreeSize scenario_tree) [1] = Some (580, 840)"
  "subtree_span_lr (fst (initialLayout_lr (Some scenario_tree) default_options))
     (calculateSubtreeHeight scenario_tree) [0] = Some (0, 304)"
  "subtree_span_lr (fst (initialLayout_lr (Some scenario_tree) default_options))
     (calculateSubtreeHeight scenario_tree) [1] = Some (328, 468)"
  by (simp_all add: span_eval layout_eval)

section \<open>The claims about the layout\<close>

text \<open>
  C2. The metric pass returns the tree it is given with nothing changed but the footprint
  field, and at every node that field holds the footprint of the node as the specification
  defines it on the given tree: \<open>BASE\<close> for a childless node and
  \<open>max BASE (sum of the children's footprints + (childCount - 1) * SPACING)\<close> for a node
  with children. So at every path the measured tree has a node exactly when the given tree
  has one, with the same id, as many children and that footprint, and the ids in pre-order
  are those of the given tree. In the measured tree every node obeys the rule on the
  footprints stored in its children. This holds for the widths of
  \<^verbatim>\<open>calculateSubtreeSize\<close> (260 and 30) and the heights of
  \<^verbatim>\<open>calculateSubtreeHeight\<close> (140 and 24); with 140 and 24 the tree
  \<open>root \<rightarrow> [A \<rightarrow> [A1, A2], B]\<close> gets 304 at \<open>A\<close> and 468 at the root.
\<close>

theorem footprints:
  "calculateSubtreeSize t = with_widths (\<lambda>n. Some (spec_footprint NODE_WIDTH X_SPACING n)) t
   \<and> calculateSubtreeHeight t = with_heights (\<lambda>n. Some (spec_footprint LR_NODE_HEIGHT NODE_SPACING n)) t
   \<and> map_option (\<lambda>n. (node_id n, length (children n), width n))
         (subtree_at (calculateSubtreeSize t) path)
       = map_option (\<lambda>n. (node_id n, length (children n), Some (spec_footprint NODE_WIDTH X_SPACING n)))
           (subtree_at t path)
   \<and> map_option (\<lambda>n. (node_id n, length (children n), height n))
         (subtree_at (calculateSubtreeHeight t) path)
       = map_option (\<lambda>n. (node_id n, length (children n), Some (spec_footprint LR_NODE_HEIGHT NODE_SPACING n)))
           (subtree_at t path)
   \<and> map node_id (preorder (calculateSubtreeSize t)) = map node_id (preorder t)
   \<and> map node_id (preorder (calculateSubtreeHeight t)) = map node_id (preorder t)
   \<and> nodeCount (calculateSubtreeSize t) = nodeCount t
   \<and> nodeCount (calculateSubtreeHeight t) = nodeCount t
   \<and> (\<forall>n \<in> set (preorder (calculateSubtreeSize t)). footprint_ok NODE_WIDTH X_SPACING width n)
   \<and> (\<forall>n \<in> set (preorder (calculateSubtreeHeight t)). footprint_ok LR_NODE_HEIGHT NODE_SPACING height n)
   \<and> LR_NODE_HEIGHT = 140 \<and> NODE_SPACING = 24
   \<and> map (spec_footprint 140 24) (preorder scenario_tree) = [468, 304, 140, 140, 140]
   \<and> map (\<lambda>n. (node_id n, height n)) (preorder (calculateSubtreeHeight scenario_tree))
       = [(''root'', Some 468), (''A'', Some 304), (''A1'', Some 140), (''A2'', Some 140), (''B'', Some 140)]"
proof -
  have "map (\<lambda>n. (node_id n, height n)) (preorder (calculateSubtreeHeight scenario_tree))
       = [(''root'', Some 468), (''A'', Some 304), (''A1'', Some 140), (''A2'', Some 140), (''B'', Some 140)]"
    by (simp add: scenario_tree_def branch_def leaf_def Let_def totalHeight_loop_def
          LR_NODE_HEIGHT_def NODE_SPACING_def)
  moreover have "LR_NODE_HEIGHT = 140" "NODE_SPACING = 24"
    by (simp_all add: LR_NODE_HEIGHT_def NODE_SPACING_def)
  moreover note calculateSubtreeSize_spec [of t] calculateSubtreeHeight_spec [of t]
    measured_size [of t path] measured_height [of t path]
    preorder_ids_size [of t] preorder_ids_height [of t] nodeCount_size [of t] nodeCount_height [of t]
    size_footprints [of t] height_footprints [of t] scenario_spec_footprints
  ultimately show ?thesis by blast
qed

text \<open>C2 at the root and at the node \<open>A\<close> of the scenario tree, in both layouts.\<close>

theorem footprints_witness:
  "footprint_ok NODE_WIDTH X_SPACING width (calculateSubtreeSize scenario_tree)
   \<and> width (calculateSubtreeSize scenario_tree) = Some 840
   \<and> footprint_ok LR_NODE_HEIGHT NODE_SPACING height (calculateSubtreeHeight scenario_tree)
   \<and> height (calculateSubtreeHeight scenario_tree) = Some 468
   \<and> map_option node_id (subtree_at scenario_tree [0]) = Some ''A''
   \<and> map_option (\<lambda>n. (node_id n, length (children n), width n))
         (subtree_at (calculateSubtreeSize scenario_tree) [0]) = Some (''A'', 2, Some 550)
   \<and> map_option (\<lambda>n. (node_id n, length (children n), height n))
         (subtree_at (calculateSubtreeHeight scenario_tree) [0]) = Some (''A'', 2, Some 304)
   \<and> nodeCount (calculateSubtreeSize scenario_tree) = 5
   \<and> nodeCount (calculateSubtreeHeight scenario_tree) = 5"
proof -
  note all = footprints [of scenario_tree "[0]"]
  from all root_in_preorder
  have "footprint_ok NODE_WIDTH X_SPACING width (calculateSubtreeSize scenario_tree)"
    and "footprint_ok LR_NODE_HEIGHT NODE_SPACING height (calculateSubtreeHeight scenario_tree)"
    by blast+
  moreover have "width (calculateSubtreeSize scenario_tree) = Some 840"
    by (simp add: layout_eval)
  moreover have "height (calculateSubtreeHeight scenario_tree) = Some 468"
    by (simp add: layout_eval)
  moreover have "map_option node_id (subtree_at scenario_tree [0]) = Some ''A''"
    by (simp add: scenario_tree_def branch_def leaf_def)
  moreover from all
  have "map_option (\<lambda>n. (node_id n, length (children n), width n))
          (subtree_at (calculateSubtreeSize scenario_tree) [0])
        = map_option (\<lambda>n. (node_id n, length (children n), Some (spec_footprint NODE_WIDTH X_SPACING n)))
          (subtree_at scenario_tree [0])"
    by blast
  then have "map_option (\<lambda>n. (node_id n, length (children n), width n))
          (subtree_at (calculateSubtreeSize scenario_tree) [0]) = Some (''A'', 2, Some 550)"
    by (rule trans) (simp add: scenario_tree_def branch_def leaf_def NODE_WIDTH_def X_SPACING_def)
  moreover from all
  have "map_option (\<lambda>n. (node_id n, length (children n), height n))
          (subtree_at (calculateSubtreeHeight scenario_tree) [0])
        = map_option (\<lambda>n. (node_id n, length (children n), Some (spec_footprint LR_NODE_HEIGHT NODE_SPACING n)))
          (subtree_at scenario_tree [0])"
    by blast
  then have "map_option (\<lambda>n. (node_id n, length (children n), height n))
          (subtree_at (calculateSubtreeHeight scenario_tree) [0]) = Some (''A'', 2, Some 304)"
    by (rule trans) (simp add: scenario_tree_def branch_def leaf_def LR_NODE_HEIGHT_def NODE_SPACING_def)
  moreover from all
  have "nodeCount (calculateSubtreeSize scenario_tree) = nodeCount scenario_tree"
    and "nodeCount (calculateSubtreeHeight scenario_tree) = nodeCount scenario_tree"
    by blast+
  then have "nodeCount (calculateSubtreeSize scenario_tree) = 5"
    and "nodeCount (calculateSubtreeHeight scenario_tree) = 5"
    by (simp_all only:) (simp_all add: scenario_tree_def branch_def leaf_def)
  ultimately show ?thesis by simp
qed

text \<open>
  C3. After the metric pass and the position assignment, for any two children of one node the
  span allocated to the earlier child ends at least one spacing before the span of the later
  child begins, in both layouts; so no two sibling spans overlap.
\<close>

theorem sibling_spans_disjoint:
  "(subtree_at (calculateSubtreeSize t) (path @ [j]) \<noteq> None \<and> i < j \<longrightarrow>
      separated X_SPACING
        (subtree_span (fst (initialLayout (Some t) opts)) (calculateSubtreeSize t) (path @ [i]))
        (subtree_span (fst (initialLayout (Some t) opts)) (calculateSubtreeSize t) (path @ [j])))
   \<and> (subtree_at (calculateSubtreeHeight t) (path @ [j]) \<noteq> None \<and> i < j \<longrightarrow>
      separated NODE_SPACING
        (subtree_span_lr (fst (initialLayout_lr (Some t) opts)) (calculateSubtreeHeight t) (path @ [i]))
        (subtree_span_lr (fst (initialLayout_lr (Some t) opts)) (calculateSubtreeHeight t) (path @ [j])))"
  using siblings_separated_td [of t path j i opts] siblings_separated_lr [of t path j i opts]
  by blast

text \<open>C3 for the two children of the root of the scenario tree.\<close>

theorem sibling_spans_disjoint_witness:
  "subtree_at (calculateSubtreeSize scenario_tree) ([] @ [1]) \<noteq> None
   \<and> subtree_at (calculateSubtreeHeight scenario_tree) ([] @ [1]) \<noteq> None
   \<and> (0::nat) < 1
   \<and> separated X_SPACING (Some (0, 550)) (Some (580, 840))
   \<and> separated NODE_SPACING (Some (0, 304)) (Some (328, 468))"
proof -
  have 1: "subtree_at (calculateSubtreeSize scenario_tree) ([] @ [1]) \<noteq> None"
    and 2: "subtree_at (calculateSubtreeHeight scenario_tree) ([] @ [1]) \<noteq> None"
    by (simp_all add: layout_eval)
  from sibling_spans_disjoint [of scenario_tree "[]" 1 0 default_options] 1 2
  show ?thesis using scenario_spans by simp
qed

text \<open>
  C4, as stated, fails: the coordinate an assigner gives a node is the corner of its box. In
  the scenario tree the root gets \<open>x = 290\<close> in the top-down layout while its children's
  combined span is \<open>(0, 840)\<close> with midpoint 420, and \<open>y = 164\<close> in the left-to-right
  layout while the span is \<open>(0, 468)\<close> with midpoint 234.
\<close>

theorem position_not_midpoint:
  "fn_x (fst (initialLayout (Some scenario_tree) default_options)
           ! emit_index (calculateSubtreeSize scenario_tree) []) = Some 290
   \<and> midpoint (children_span (fst (initialLayout (Some scenario_tree) default_options))
                (calculateSubtreeSize scenario_tree) []) = Some 420
   \<and> fn_y (fst (initialLayout_lr (Some scenario_tree) default_options)
           ! emit_index (calculateSubtreeHeight scenario_tree) []) = Some 164
   \<and> midpoint (children_span_lr (fst (initialLayout_lr (Some scenario_tree) default_options))
                (calculateSubtreeHeight scenario_tree) []) = Some 234
   \<and> fn_x (fst (initialLayout (Some scenario_tree) default_options)
           ! emit_index (calculateSubtreeSize scenario_tree) [])
       \<noteq> midpoint (children_span (fst (initialLayout (Some scenario_tree) default_options))
                (calculateSubtreeSize scenario_tree) [])
   \<and> fn_y (fst (initialLayout_lr (Some scenario_tree) default_options)
           ! emit_index (calculateSubtreeHeight scenario_tree) [])
       \<noteq> midpoint (children_span_lr (fst (initialLayout_lr (Some scenario_tree) default_options))
                (calculateSubtreeHeight scenario_tree) [])"
  by (simp add: span_eval layout_eval)

text \<open>
  C4, amended. For every node with children the centre of its box, that is the assigned
  coordinate plus half the fixed box size, is the midpoint of its children's combined span,
  which is also the midpoint of the span allocated to its own subtree.
\<close>

theorem centred_over_children:
  "(subtree_at (calculateSubtreeSize t) path = Some n \<and> children n \<noteq> [] \<longrightarrow>
      (\<exists>c. box_centre NODE_WIDTH
              (fn_x (fst (initialLayout (Some t) opts) ! emit_index (calculateSubtreeSize t) path)) = Some c
          \<and> midpoint (children_span (fst (initialLayout (Some t) opts)) (calculateSubtreeSize t) path) = Some c
          \<and> children_span (fst (initialLayout (Some t) opts)) (calculateSubtreeSize t) path
              = subtree_span (fst (initialLayout (Some t) opts)) (calculateSubtreeSize t) path))
   \<and> (subtree_at (calculateSubtreeHeight t) path = Some m \<and> children m \<noteq> [] \<longrightarrow>
      (\<exists>c. box_centre LR_NODE_HEIGHT
              (fn_y (fst (initialLayout_lr (Some t) opts) ! emit_index (calculateSubtreeHeight t) path)) = Some c
          \<and> midpoint (children_span_lr (fst (initialLayout_lr (Some t) opts)) (calculateSubtreeHeight t) path) = Some c
          \<and> children_span_lr (fst (initialLayout_lr (Some t) opts)) (calculateSubtreeHeight t) path
              = subtree_span_lr (fst (initialLayout_lr (Some t) opts)) (calculateSubtreeHeight t) path))"
  using centred_td [of t path n opts] centred_lr [of t path m opts] by blast

text \<open>The amended C4 at the root of the scenario tree.\<close>

theorem centred_over_children_witness:
  "children (calculateSubtreeSize scenario_tree) \<noteq> []
   \<and> children (calculateSubtreeHeight scenario_tree) \<noteq> []
   \<and> box_centre NODE_WIDTH (Some 290) = Some 420
   \<and> midpoint (children_span (fst (initialLayout (Some scenario_tree) default_options))
                (calculateSubtreeSize scenario_tree) []) = Some 420
   \<and> box_centre LR_NODE_HEIGHT (Some 164) = Some 234
   \<and> midpoint (children_span_lr (fst (initialLayout_lr (Some scenario_tree) default_options))
                (calculateSubtreeHeight scenario_tree) []) = Some 234"
proof -
  have 1: "children (calculateSubtreeSize scenario_tree) \<noteq> []"
    and 2: "children (calculateSubtreeHeight scenario_tree) \<noteq> []"
    by (simp_all add: layout_eval)
  have x: "fn_x (fst (initialLayout (Some scenario_tree) default_options)
                  ! emit_index (calculateSubtreeSize scenario_tree) []) = Some 290"
    and y: "fn_y (fst (initialLayout_lr (Some scenario_tree) default_options)
                  ! emit_index (calculateSubtreeHeight scenario_tree) []) = Some 164"
    by (simp_all add: layout_eval)
  from centred_over_children [of scenario_tree "[]" "calculateSubtreeSize scenario_tree"
         default_options "calculateSubtreeHeight scenario_tree"] 1 2 x y
  show ?thesis by (auto simp: box_centre_def NODE_WIDTH_def LR_NODE_HEIGHT_def)
qed

text \<open>
  C5, as stated, fails: \<^verbatim>\<open>if (parentId)\<close> is false for the empty string, so below a node
  whose id is empty no edge is pushed. The tree of a root with the id \<^verbatim>\<open>""\<close> and one child
  has two nodes and no edge.
\<close>

theorem unnamed_parent_no_edges:
  "snd (initialLayout (Some unnamed_parent_tree) default_options) = []
   \<and> snd (initialLayout_lr (Some unnamed_parent_tree) default_options) = []
   \<and> map fn_id (fst (initialLayout (Some unnamed_parent_tree) default_options)) = ['''', ''a'']
   \<and> nodeCount unnamed_parent_tree = 2"
  by (simp add: unnamed_parent_tree_def layout_eval)

text \<open>
  C5, amended. For every tree in which each node that has children has a non-empty id, both
  assigners emit one edge record per node below the root, from the id of its parent to the id
  of the node, in pre-order: the number of edges is the number of nodes minus one and the
  targets are the nodes below the root, each once.
\<close>

theorem edges_complete:
  "named_parents t \<longrightarrow>
     snd (initialLayout (Some t) opts) = expected_edges opts t
     \<and> snd (initialLayout_lr (Some t) opts) = expected_edges opts t
     \<and> length (expected_edges opts t) = nodeCount t - 1
     \<and> map fe_target (expected_edges opts t) = map node_id (tl (preorder t))"
  using layout_edges [of t opts] layout_lr_edges [of t opts] expected_edges_length [of opts t]
    expected_edges_targets [of opts t]
  by auto

text \<open>The amended C5 on the scenario tree.\<close>

theorem edges_complete_witness:
  "named_parents scenario_tree
   \<and> map (\<lambda>e. (fe_source e, fe_target e)) (snd (initialLayout (Some scenario_tree) default_options))
       = [(''root'', ''A''), (''A'', ''A1''), (''A'', ''A2''), (''root'', ''B'')]
   \<and> length (snd (initialLayout (Some scenario_tree) default_options)) = nodeCount scenario_tree - 1
   \<and> snd (initialLayout_lr (Some scenario_tree) default_options)
       = snd (initialLayout (Some scenario_tree) default_options)"
proof -
  have n: "named_parents scenario_tree" by (simp add: layout_eval)
  from edges_complete [of scenario_tree default_options] n scenario_edges
  show ?thesis by simp
qed

end
